theory Spec2Isabelle
  imports Main "HOL-Library.Sublist"
begin

section \<open>Support ticket agent (agentic_ai.py)\<close>

text \<open>
  The program keeps a list of tickets loaded from \<^verbatim>\<open>tickets.json\<close>, answers one line of
  text at a time by matching it against four regular expressions, and rewrites the file
  when a ticket changes owner.

  Conventions of the embedding.
  \<^item> A Python \<^verbatim>\<open>str\<close> is a \<^typ>\<open>string\<close>, and a \<^typ>\<open>char\<close> is the code point of that
    number, U+0000 to U+00FF. On these code points \<^verbatim>\<open>lower\<close>, \<^verbatim>\<open>strip\<close>, \<^verbatim>\<open>\d\<close> and \<^verbatim>\<open>\w\<close>
    are as in Python 3.11. \<^verbatim>\<open>capitalize\<close> is too, but for a string that starts with U+00B5
    or U+00FF, whose title case lies above U+00FF: the embedding leaves that character
    as it is. Text with code points above U+00FF is outside the embedding.
  \<^item> A Python \<^verbatim>\<open>int\<close> is an \<^typ>\<open>int\<close>, of any size. \<^verbatim>\<open>int\<close> on a string raises ValueError
    above the interpreter's default of 4300 digits. The ids held by the collection were
    parsed under the same limit when the file was loaded, so \<^verbatim>\<open>str\<close> on an id returns.
  \<^item> A ticket is a record with the five keys the program reads, typed as the data
    model types them.
  \<^item> The module-level list \<^verbatim>\<open>tickets\<close> and the file are fields of an explicit state.
    The file is represented by the JSON document it holds; \<^verbatim>\<open>json.dump\<close> and
    \<^verbatim>\<open>json.load\<close> are the library's and are taken to be inverse to each other on such
    documents, and a rewrite of the file is taken to succeed.
  \<^item> An exception is a value of type \<open>error\<close>.
\<close>

subsection \<open>Strings\<close>

definition upper_letters :: string where
  "upper_letters = ''ABCDEFGHIJKLMNOPQRSTUVWXYZ''"

definition lower_letters :: string where
  "lower_letters = ''abcdefghijklmnopqrstuvwxyz''"

definition digit_chars :: string where
  "digit_chars = ''0123456789''"

text \<open>
  The upper-case letters above ASCII, U+00C0 to U+00DE without the multiplication sign,
  and their lower case, U+00E0 to U+00FE without the division sign.
\<close>

definition latin_upper :: string where
  "latin_upper =
     [CHR 0xC0, CHR 0xC1, CHR 0xC2, CHR 0xC3, CHR 0xC4, CHR 0xC5, CHR 0xC6, CHR 0xC7,
      CHR 0xC8, CHR 0xC9, CHR 0xCA, CHR 0xCB, CHR 0xCC, CHR 0xCD, CHR 0xCE, CHR 0xCF,
      CHR 0xD0, CHR 0xD1, CHR 0xD2, CHR 0xD3, CHR 0xD4, CHR 0xD5, CHR 0xD6, CHR 0xD8,
      CHR 0xD9, CHR 0xDA, CHR 0xDB, CHR 0xDC, CHR 0xDD, CHR 0xDE]"

definition latin_lower :: string where
  "latin_lower =
     [CHR 0xE0, CHR 0xE1, CHR 0xE2, CHR 0xE3, CHR 0xE4, CHR 0xE5, CHR 0xE6, CHR 0xE7,
      CHR 0xE8, CHR 0xE9, CHR 0xEA, CHR 0xEB, CHR 0xEC, CHR 0xED, CHR 0xEE, CHR 0xEF,
      CHR 0xF0, CHR 0xF1, CHR 0xF2, CHR 0xF3, CHR 0xF4, CHR 0xF5, CHR 0xF6, CHR 0xF8,
      CHR 0xF9, CHR 0xFA, CHR 0xFB, CHR 0xFC, CHR 0xFD, CHR 0xFE]"

definition to_lower :: "char \<Rightarrow> char" where
  "to_lower c =
     (case map_of (zip (upper_letters @ latin_upper) (lower_letters @ latin_lower)) c of
        Some d \<Rightarrow> d
      | None \<Rightarrow> c)"

text \<open>
  The title case of a character, which \<^verbatim>\<open>capitalize\<close> gives the first one: the upper-case
  letter of a lower-case letter, and the two letters \<^verbatim>\<open>Ss\<close> for the sharp s, U+00DF.
\<close>

definition to_title :: "char \<Rightarrow> string" where
  "to_title c =
     (if c = CHR 0xDF then ''Ss''
      else case map_of (zip (lower_letters @ latin_lower) (upper_letters @ latin_upper)) c of
             Some d \<Rightarrow> [d]
           | None \<Rightarrow> [c])"

text \<open>\<^verbatim>\<open>str.lower()\<close>\<close>

definition lower :: "string \<Rightarrow> string" where
  "lower s = map to_lower s"

text \<open>\<^verbatim>\<open>str.capitalize()\<close>: the first character in title case, the rest in lower case.\<close>

fun capitalize :: "string \<Rightarrow> string" where
  "capitalize [] = []"
| "capitalize (c # cs) = to_title c @ lower cs"

text \<open>
  The characters \<^verbatim>\<open>str.strip()\<close> removes: tab, line feed, vertical tab, form feed,
  carriage return, the four separators \<^verbatim>\<open>\x1c\<close> to \<^verbatim>\<open>\x1f\<close>, the space, the next-line
  character U+0085 and the no-break space U+00A0.
\<close>

definition is_space :: "char \<Rightarrow> bool" where
  "is_space c = (c \<in> set [CHR 0x09, CHR 0x0A, CHR 0x0B, CHR 0x0C, CHR 0x0D,
                            CHR 0x1C, CHR 0x1D, CHR 0x1E, CHR 0x1F, CHR 0x20,
                            CHR 0x85, CHR 0xA0])"

definition lstrip :: "string \<Rightarrow> string" where
  "lstrip s = dropWhile is_space s"

definition rstrip :: "string \<Rightarrow> string" where
  "rstrip s = rev (dropWhile is_space (rev s))"

text \<open>\<^verbatim>\<open>str.strip()\<close>\<close>

definition strip :: "string \<Rightarrow> string" where
  "strip s = rstrip (lstrip s)"

text \<open>
  \<^verbatim>\<open>\d\<close> and \<^verbatim>\<open>\w\<close> of the module \<^verbatim>\<open>re\<close>, on a \<^verbatim>\<open>str\<close>. Above ASCII \<^verbatim>\<open>\d\<close> matches nothing
  up to U+00FF, and \<^verbatim>\<open>\w\<close> matches the letters, the superscript digits and the fractions.
\<close>

definition is_digit :: "char \<Rightarrow> bool" where
  "is_digit c = (c \<in> set digit_chars)"

definition latin_word :: string where
  "latin_word =
     [CHR 0xAA, CHR 0xB2, CHR 0xB3, CHR 0xB5, CHR 0xB9, CHR 0xBA, CHR 0xBC, CHR 0xBD,
      CHR 0xBE, CHR 0xC0, CHR 0xC1, CHR 0xC2, CHR 0xC3, CHR 0xC4, CHR 0xC5, CHR 0xC6,
      CHR 0xC7, CHR 0xC8, CHR 0xC9, CHR 0xCA, CHR 0xCB, CHR 0xCC, CHR 0xCD, CHR 0xCE,
      CHR 0xCF, CHR 0xD0, CHR 0xD1, CHR 0xD2, CHR 0xD3, CHR 0xD4, CHR 0xD5, CHR 0xD6,
      CHR 0xD8, CHR 0xD9, CHR 0xDA, CHR 0xDB, CHR 0xDC, CHR 0xDD, CHR 0xDE, CHR 0xDF,
      CHR 0xE0, CHR 0xE1, CHR 0xE2, CHR 0xE3, CHR 0xE4, CHR 0xE5, CHR 0xE6, CHR 0xE7,
      CHR 0xE8, CHR 0xE9, CHR 0xEA, CHR 0xEB, CHR 0xEC, CHR 0xED, CHR 0xEE, CHR 0xEF,
      CHR 0xF0, CHR 0xF1, CHR 0xF2, CHR 0xF3, CHR 0xF4, CHR 0xF5, CHR 0xF6, CHR 0xF8,
      CHR 0xF9, CHR 0xFA, CHR 0xFB, CHR 0xFC, CHR 0xFD, CHR 0xFE, CHR 0xFF]"

definition is_word :: "char \<Rightarrow> bool" where
  "is_word c = (c \<in> set (lower_letters @ upper_letters @ digit_chars @ ''_'' @ latin_word))"

text \<open>\<^verbatim>\<open>w in s\<close> on strings: \<open>w\<close> occurs in \<open>s\<close> as a contiguous substring.\<close>

fun starts_with :: "string \<Rightarrow> string \<Rightarrow> bool" where
  "starts_with [] s = True"
| "starts_with (c # w) [] = False"
| "starts_with (c # w) (d # s) = (c = d \<and> starts_with w s)"

fun str_in :: "string \<Rightarrow> string \<Rightarrow> bool" where
  "str_in w [] = starts_with w []"
| "str_in w (c # cs) = (starts_with w (c # cs) \<or> str_in w cs)"

text \<open>\<^verbatim>\<open>sep.join(xs)\<close>\<close>

fun join :: "string \<Rightarrow> string list \<Rightarrow> string" where
  "join sep [] = []"
| "join sep [x] = x"
| "join sep (x # y # ys) = x @ sep @ join sep (y # ys)"

text \<open>\<^verbatim>\<open>str(n)\<close> for an integer, as an f-string prints it.\<close>

fun str_nat :: "nat \<Rightarrow> string" where
  "str_nat n =
     (if n < 10 then [digit_chars ! n]
      else str_nat (n div 10) @ [digit_chars ! (n mod 10)])"

definition str_int :: "int \<Rightarrow> string" where
  "str_int i = (if i < 0 then CHR ''-'' # str_nat (nat (- i)) else str_nat (nat i))"

subsection \<open>Exceptions\<close>

datatype error = ValueError | TypeError | AttributeError | EOFError

text \<open>
  \<^verbatim>\<open>int(s)\<close> on a string: surrounding whitespace is dropped, one sign is allowed, and
  the digits may be grouped by single underscores. Anything else raises ValueError, and
  so does a string with more digits than \<^verbatim>\<open>sys.get_int_max_str_digits()\<close>, which is 4300
  unless the interpreter is told otherwise; the program does not change it.
\<close>

definition max_str_digits :: nat where
  "max_str_digits = 4300"

definition digit_val :: "char \<Rightarrow> int" where
  "digit_val c = int (of_char c) - 48"

fun int_body_ok :: "string \<Rightarrow> bool" where
  "int_body_ok [] = False"
| "int_body_ok [c] = is_digit c"
| "int_body_ok (c # d # s) =
     (is_digit c \<and> (if d = CHR ''_'' then int_body_ok s else int_body_ok (d # s)))"

definition int_value :: "string \<Rightarrow> int" where
  "int_value s = foldl (\<lambda>a c. 10 * a + digit_val c) 0 (filter is_digit s)"

text \<open>The digits after the sign.\<close>

definition int_digits :: "string \<Rightarrow> error + int" where
  "int_digits body =
     (if \<not> int_body_ok body then Inl ValueError
      else if max_str_digits < length (filter is_digit body) then Inl ValueError
      else Inr (int_value body))"

definition py_int :: "string \<Rightarrow> error + int" where
  "py_int s =
     (case strip s of
        [] \<Rightarrow> Inl ValueError
      | c # cs \<Rightarrow>
          if c = CHR ''-'' then
            (case int_digits cs of Inl e \<Rightarrow> Inl e | Inr v \<Rightarrow> Inr (- v))
          else if c = CHR ''+'' then int_digits cs
          else int_digits (c # cs))"

subsection \<open>Regular expressions\<close>

text \<open>
  The fragment of the module \<^verbatim>\<open>re\<close> that the program's patterns use: literal text,
  \<^verbatim>\<open>\d+\<close> and \<^verbatim>\<open>\w+\<close>, an optional part \<^verbatim>\<open>(?:r)?\<close>, concatenation, alternation
  \<^verbatim>\<open>r|r\<close> and a numbered capturing group.
\<close>

datatype cclass = Digit | Word

fun in_class :: "cclass \<Rightarrow> char \<Rightarrow> bool" where
  "in_class Digit c = is_digit c"
| "in_class Word c = is_word c"

datatype regex =
    Lit string
  | Plus cclass
  | Opt regex
  | Cat regex regex
  | Alt regex regex
  | Grp nat regex

type_synonym groups = "nat \<rightharpoonup> string"

text \<open>
  \<open>rmatch r s g\<close> lists every way \<open>r\<close> matches at the start of \<open>s\<close>, as the text left over
  and the groups captured, in the order in which a backtracking matcher tries them:
  a greedy \<^verbatim>\<open>+\<close> tries the longest run first, a greedy \<^verbatim>\<open>?\<close> tries the optional part
  before skipping it, an alternation tries its left branch first.
\<close>

fun rmatch :: "regex \<Rightarrow> string \<Rightarrow> groups \<Rightarrow> (string \<times> groups) list" where
  "rmatch (Lit w) s g = (if starts_with w s then [(drop (length w) s, g)] else [])"
| "rmatch (Plus c) s g =
     map (\<lambda>n. (drop n s, g)) (rev [1 ..< Suc (length (takeWhile (in_class c) s))])"
| "rmatch (Opt r) s g = rmatch r s g @ [(s, g)]"
| "rmatch (Cat r1 r2) s g = concat (map (\<lambda>(s', g'). rmatch r2 s' g') (rmatch r1 s g))"
| "rmatch (Alt r1 r2) s g = rmatch r1 s g @ rmatch r2 s g"
| "rmatch (Grp k r) s g =
     map (\<lambda>(s', g'). (s', g'(k \<mapsto> take (length s - length s') s))) (rmatch r s g)"

text \<open>
  A match object: the text matched (\<^verbatim>\<open>group(0)\<close>) and the numbered groups.
  \<^verbatim>\<open>re.search\<close> returns the first match at the leftmost position that has one, or None.
\<close>

type_synonym match = "string \<times> groups"

fun re_search :: "regex \<Rightarrow> string \<Rightarrow> match option" where
  "re_search r [] =
     (case rmatch r [] Map.empty of
        [] \<Rightarrow> None
      | (s', g) # _ \<Rightarrow> Some ([], g))"
| "re_search r (c # cs) =
     (case rmatch r (c # cs) Map.empty of
        [] \<Rightarrow> re_search r cs
      | (s', g) # _ \<Rightarrow> Some (take (length (c # cs) - length s') (c # cs), g))"

text \<open>
  \<^verbatim>\<open>m.group(0)\<close>, the text matched, and \<^verbatim>\<open>m.group(k)\<close> for \<open>k \<ge> 1\<close>, which is None
  when the group took no part in the match.
\<close>

definition group0 :: "match \<Rightarrow> string" where
  "group0 m = fst m"

definition group :: "match \<Rightarrow> nat \<Rightarrow> string option" where
  "group m k = snd m k"

text \<open>The four patterns of \<^verbatim>\<open>process_query\<close>.\<close>

definition status_re :: regex where
  "status_re = Alt (Lit ''open'') (Alt (Lit ''closed'') (Lit ''pending''))"

definition assign_re :: regex where
  "assign_re =
     Cat (Lit ''assign '') (Cat (Opt (Lit ''ticket '')) (Cat (Grp 1 (Plus Digit))
       (Cat (Opt (Lit '' ticket'')) (Cat (Lit '' to '') (Grp 2 (Plus Word))))))"

definition who_re :: regex where
  "who_re =
     Cat (Lit ''who '') (Cat (Alt (Lit ''is working on'') (Lit ''is assigned to''))
       (Cat (Lit '' ticket '') (Grp 1 (Plus Digit))))"

definition summary_re :: regex where
  "summary_re = Cat (Lit ''summarize ticket '') (Grp 1 (Plus Digit))"

subsection \<open>Tickets and the store\<close>

record ticket =
  ticket_id :: int
  title :: string
  description :: string
  status :: string
  assigned_to :: string

text \<open>
  The state: the list \<^verbatim>\<open>tickets\<close> in memory, the document in \<^verbatim>\<open>tickets.json\<close>, and the
  number of times the file has been rewritten.
\<close>

record state =
  tickets :: "ticket list"
  json_file :: "ticket list"
  writes :: nat

text \<open>Module start: \<^verbatim>\<open>tickets = json.load(file)\<close>.\<close>

definition load_tickets :: "state \<Rightarrow> state" where
  "load_tickets s = s\<lparr>tickets := json_file s\<rparr>"

text \<open>The loop of \<^verbatim>\<open>get_ticket_by_id\<close> over \<^verbatim>\<open>tickets\<close>.\<close>

fun get_ticket_by_id :: "ticket list \<Rightarrow> int \<Rightarrow> ticket option" where
  "get_ticket_by_id [] tid = None"
| "get_ticket_by_id (t # ts) tid =
     (if ticket_id t = tid then Some t else get_ticket_by_id ts tid)"

text \<open>The comprehension of \<^verbatim>\<open>list_tickets_by_status\<close>.\<close>

fun list_tickets_by_status :: "ticket list \<Rightarrow> string \<Rightarrow> ticket list" where
  "list_tickets_by_status [] st = []"
| "list_tickets_by_status (t # ts) st =
     (if lower (status t) = lower st then t # list_tickets_by_status ts st
      else list_tickets_by_status ts st)"

text \<open>
  The loop of \<^verbatim>\<open>update_ticket_assignment\<close>: the first ticket with the id gets the new
  owner and the loop breaks. It returns the list after the loop and the ticket updated.
\<close>

fun assign_first :: "int \<Rightarrow> string \<Rightarrow> ticket list \<Rightarrow> ticket list \<times> ticket option" where
  "assign_first tid a [] = ([], None)"
| "assign_first tid a (t # ts) =
     (if ticket_id t = tid then (t\<lparr>assigned_to := a\<rparr> # ts, Some (t\<lparr>assigned_to := a\<rparr>))
      else (case assign_first tid a ts of (ts', r) \<Rightarrow> (t # ts', r)))"

text \<open>
  \<^verbatim>\<open>update_ticket_assignment\<close>. A ticket has five keys, so \<^verbatim>\<open>if updated_ticket\<close> holds
  whenever the loop found one; then the whole list is dumped to the file.
\<close>

definition update_ticket_assignment :: "int \<Rightarrow> string \<Rightarrow> state \<Rightarrow> ticket option \<times> state" where
  "update_ticket_assignment tid a s =
     (case assign_first tid a (tickets s) of
        (ts', Some t) \<Rightarrow> (Some t, s\<lparr>tickets := ts', json_file := ts', writes := Suc (writes s)\<rparr>)
      | (ts', None) \<Rightarrow> (None, s))"

subsection \<open>The query router\<close>

text \<open>The replies of \<^verbatim>\<open>process_query\<close>, one definition for each f-string or literal.\<close>

definition msg_no_tickets :: "string \<Rightarrow> string" where
  "msg_no_tickets st = ''No tickets found with status '' @ [CHR 0x27] @ st @ [CHR 0x27] @ ''.''"

definition listing_line :: "ticket \<Rightarrow> string" where
  "listing_line t =
     ''Tickets '' @ str_int (ticket_id t) @ '': '' @ title t @
     '' (Assigned to '' @ assigned_to t @ '')''"

definition msg_specify_status :: string where
  "msg_specify_status = ''Please specify a valid ticket status (open, closed, or pending).''"

definition msg_not_found :: "int \<Rightarrow> string" where
  "msg_not_found tid = ''Ticket '' @ str_int tid @ '' not found.''"

definition msg_already :: "int \<Rightarrow> string \<Rightarrow> string" where
  "msg_already tid a = ''Ticket '' @ str_int tid @ '' is already assigned to '' @ a @ ''.''"

definition msg_now :: "int \<Rightarrow> string \<Rightarrow> string" where
  "msg_now tid a = ''Ticket '' @ str_int tid @ '' is now assigned to '' @ a @ ''.''"

definition msg_assigned :: "int \<Rightarrow> string \<Rightarrow> string" where
  "msg_assigned tid a = ''Ticket '' @ str_int tid @ '' is assigned to '' @ a @ ''.''"

definition msg_summary :: "int \<Rightarrow> ticket \<Rightarrow> string" where
  "msg_summary tid t =
     ''Summary of Ticket '' @ str_int tid @ '':'' @ [CHR 0x0A] @
     ''Title: '' @ title t @ [CHR 0x0A] @
     ''Description: '' @ description t @ [CHR 0x0A] @
     ''Status: '' @ status t @ [CHR 0x0A] @
     ''Assigned to: '' @ assigned_to t"

definition msg_fallback :: string where
  "msg_fallback =
     ''Sorry, I couldn'' @ [CHR 0x27] @
     ''t understand that query. Try asking about a ticket ID, status, or assignment.''"

text \<open>\<^verbatim>\<open>int(m.group(1))\<close>: \<^verbatim>\<open>int(None)\<close> raises TypeError.\<close>

definition int_of_group :: "string option \<Rightarrow> error + int" where
  "int_of_group x = (case x of None \<Rightarrow> Inl TypeError | Some d \<Rightarrow> py_int d)"

text \<open>The condition of the first \<^verbatim>\<open>if\<close> of \<^verbatim>\<open>process_query\<close>, on the normalised query.\<close>

definition status_trigger :: "string \<Rightarrow> bool" where
  "status_trigger query =
     (str_in ''tickets'' query \<and>
      (str_in ''open'' query \<or> str_in ''closed'' query \<or> str_in ''pending'' query))"

text \<open>
  \<^verbatim>\<open>process_query\<close>: the reply and the state after it, or the exception raised.
\<close>

definition process_query :: "string \<Rightarrow> state \<Rightarrow> error + (string \<times> state)" where
  "process_query q s =
     (let query = strip (lower q) in
      if status_trigger query then
        (case re_search status_re query of
           Some status_match \<Rightarrow>
             (let st = group0 status_match;
                  results = list_tickets_by_status (tickets s) st
              in if results = [] then Inr (msg_no_tickets st, s)
                 else Inr (join [CHR 0x0A] (map listing_line results), s))
         | None \<Rightarrow> Inr (msg_specify_status, s))
      else
        (case re_search assign_re query of
           Some assign_match \<Rightarrow>
             (case int_of_group (group assign_match 1) of
                Inl e \<Rightarrow> Inl e
              | Inr tid \<Rightarrow>
                  (case group assign_match 2 of
                     None \<Rightarrow> Inl AttributeError
                   | Some name \<Rightarrow>
                       (let new_assignee = capitalize name in
                        case get_ticket_by_id (tickets s) tid of
                          None \<Rightarrow> Inr (msg_not_found tid, s)
                        | Some ticket \<Rightarrow>
                            if lower (assigned_to ticket) = lower new_assignee
                            then Inr (msg_already tid new_assignee, s)
                            else Inr (msg_now tid new_assignee,
                                      snd (update_ticket_assignment tid new_assignee s)))))
         | None \<Rightarrow>
        (case re_search who_re query of
           Some who_match \<Rightarrow>
             (case int_of_group (group who_match 1) of
                Inl e \<Rightarrow> Inl e
              | Inr tid \<Rightarrow>
                  (case get_ticket_by_id (tickets s) tid of
                     None \<Rightarrow> Inr (msg_not_found tid, s)
                   | Some ticket \<Rightarrow> Inr (msg_assigned tid (assigned_to ticket), s)))
         | None \<Rightarrow>
        (case re_search summary_re query of
           Some summary_match \<Rightarrow>
             (case int_of_group (group summary_match 1) of
                Inl e \<Rightarrow> Inl e
              | Inr tid \<Rightarrow>
                  (case get_ticket_by_id (tickets s) tid of
                     None \<Rightarrow> Inr (msg_not_found tid, s)
                   | Some ticket \<Rightarrow> Inr (msg_summary tid ticket, s)))
         | None \<Rightarrow> Inr (msg_fallback, s)))))"

subsection \<open>The interactive loop\<close>

definition msg_goodbye :: string where
  "msg_goodbye = ''Exiting the Support Ticket Agent. Goodbye!''"

definition agent_says :: "string \<Rightarrow> string" where
  "agent_says response = ''Support Ticket Agent: '' @ response"

text \<open>
  The \<^verbatim>\<open>while True\<close> loop of \<^verbatim>\<open>main\<close>, on the lines that \<^verbatim>\<open>input\<close> will return. The
  result is the lines printed, the state, and how the loop ended: None after
  \<^verbatim>\<open>break\<close>, or the exception that left it. At the end of the input \<^verbatim>\<open>input\<close> raises
  EOFError.
\<close>

fun agent_loop :: "string list \<Rightarrow> state \<Rightarrow> string list \<times> state \<times> error option" where
  "agent_loop [] s = ([], s, Some EOFError)"
| "agent_loop (query # rest) s =
     (if lower query \<in> set [''exit'', ''quit''] then ([msg_goodbye], s, None)
      else
        (case process_query query s of
           Inl e \<Rightarrow> ([], s, Some e)
         | Inr (response, s') \<Rightarrow>
             (case agent_loop rest s' of
                (out, s'', r) \<Rightarrow> (agent_says response # out, s'', r))))"

definition main :: "string list \<Rightarrow> state \<Rightarrow> string list \<times> state \<times> error option" where
  "main inp s =
     (case agent_loop inp s of
        (out, s', r) \<Rightarrow>
          (''=== Support Ticket Agent ==='' #
           (''Type a question (e.g. '' @ [CHR 0x27] @ ''Show me all open tickets.'' @
            [CHR 0x27] @ '')'') # out, s', r))"

subsection \<open>The intent of a query\<close>

text \<open>
  The branch of \<^verbatim>\<open>process_query\<close> that answers a query: the conditions of its
  \<^verbatim>\<open>if\<close> statements, in their order.
\<close>

datatype intent = StatusListing | Reassignment | Ownership | Summary | Fallback

definition classify :: "string \<Rightarrow> intent" where
  "classify q =
     (let query = strip (lower q) in
      if status_trigger query then StatusListing
      else if re_search assign_re query \<noteq> None then Reassignment
      else if re_search who_re query \<noteq> None then Ownership
      else if re_search summary_re query \<noteq> None then Summary
      else Fallback)"

text \<open>
  The rules whose trigger holds for a query, in the order in which \<^verbatim>\<open>process_query\<close>
  tests them. The fallback has no trigger.
\<close>

definition triggers :: "string \<Rightarrow> intent list" where
  "triggers q =
     (let query = strip (lower q) in
      (if status_trigger query then [StatusListing] else []) @
      (if re_search assign_re query \<noteq> None then [Reassignment] else []) @
      (if re_search who_re query \<noteq> None then [Ownership] else []) @
      (if re_search summary_re query \<noteq> None then [Summary] else []))"

text \<open>The three keywords of the pattern \<^verbatim>\<open>open|closed|pending\<close>.\<close>

definition is_status_keyword :: "string \<Rightarrow> bool" where
  "is_status_keyword k = (k = ''open'' \<or> k = ''closed'' \<or> k = ''pending'')"

text \<open>The reply of the status listing for a status keyword.\<close>

definition status_listing_reply :: "ticket list \<Rightarrow> string \<Rightarrow> string" where
  "status_listing_reply ts st =
     (if list_tickets_by_status ts st = [] then msg_no_tickets st
      else join [CHR 0x0A] (map listing_line (list_tickets_by_status ts st)))"

text \<open>
  The replies of each category: \<open>reply_of c s r s'\<close> holds when \<open>r\<close> is a reply of
  category \<open>c\<close> in state \<open>s\<close> and \<open>s'\<close> is the state that the category leaves.
\<close>

definition reply_of :: "intent \<Rightarrow> state \<Rightarrow> string \<Rightarrow> state \<Rightarrow> bool" where
  "reply_of c s r s' =
     (case c of
        StatusListing \<Rightarrow>
          s' = s \<and>
          (\<exists>st. is_status_keyword st \<and> r = status_listing_reply (tickets s) st)
      | Reassignment \<Rightarrow>
          (\<exists>tid a.
             (get_ticket_by_id (tickets s) tid = None \<and> r = msg_not_found tid \<and> s' = s) \<or>
             (\<exists>t. get_ticket_by_id (tickets s) tid = Some t \<and>
                  lower (assigned_to t) = lower a \<and> r = msg_already tid a \<and> s' = s) \<or>
             (\<exists>t. get_ticket_by_id (tickets s) tid = Some t \<and>
                  lower (assigned_to t) \<noteq> lower a \<and> r = msg_now tid a \<and>
                  s' = snd (update_ticket_assignment tid a s)))
      | Ownership \<Rightarrow>
          s' = s \<and>
          (\<exists>tid. (get_ticket_by_id (tickets s) tid = None \<and> r = msg_not_found tid) \<or>
                 (\<exists>t. get_ticket_by_id (tickets s) tid = Some t \<and>
                      r = msg_assigned tid (assigned_to t)))
      | Summary \<Rightarrow>
          s' = s \<and>
          (\<exists>tid. (get_ticket_by_id (tickets s) tid = None \<and> r = msg_not_found tid) \<or>
                 (\<exists>t. get_ticket_by_id (tickets s) tid = Some t \<and> r = msg_summary tid t))
      | Fallback \<Rightarrow> s' = s \<and> r = msg_fallback)"

text \<open>The exit condition of the loop of \<^verbatim>\<open>main\<close>, on the line as it was read.\<close>

definition is_sentinel :: "string \<Rightarrow> bool" where
  "is_sentinel l = (lower l \<in> set [''exit'', ''quit''])"

text \<open>
  The exit condition as the specification words it: a sentinel, compared without
  regard to case, after trimming the whitespace around the line.
\<close>

definition is_sentinel_trimmed :: "string \<Rightarrow> bool" where
  "is_sentinel_trimmed l = (strip (lower l) \<in> set [''exit'', ''quit''])"

text \<open>
  The replies of the router to a list of lines, one after the other, each in the state
  that the one before left, and the exception of the first line on which the router
  raises, where it stops.
\<close>

fun replies :: "string list \<Rightarrow> state \<Rightarrow> string list \<times> state \<times> error option" where
  "replies [] s = ([], s, None)"
| "replies (l # ls) s =
     (case process_query l s of
        Inl e \<Rightarrow> ([], s, Some e)
      | Inr (r, s') \<Rightarrow> (case replies ls s' of (rs, s'', e) \<Rightarrow> (r # rs, s'', e)))"

subsection \<open>The rules, one by one\<close>

text \<open>
  The body of each branch of \<^verbatim>\<open>process_query\<close>, as a function of the match object that
  the branch has found.
\<close>

definition answer_status :: "match \<Rightarrow> state \<Rightarrow> error + (string \<times> state)" where
  "answer_status status_match s =
     (let st = group0 status_match;
          results = list_tickets_by_status (tickets s) st
      in if results = [] then Inr (msg_no_tickets st, s)
         else Inr (join [CHR 0x0A] (map listing_line results), s))"

definition answer_assign :: "match \<Rightarrow> state \<Rightarrow> error + (string \<times> state)" where
  "answer_assign assign_match s =
     (case int_of_group (group assign_match 1) of
        Inl e \<Rightarrow> Inl e
      | Inr tid \<Rightarrow>
          (case group assign_match 2 of
             None \<Rightarrow> Inl AttributeError
           | Some name \<Rightarrow>
               (let new_assignee = capitalize name in
                case get_ticket_by_id (tickets s) tid of
                  None \<Rightarrow> Inr (msg_not_found tid, s)
                | Some ticket \<Rightarrow>
                    if lower (assigned_to ticket) = lower new_assignee
                    then Inr (msg_already tid new_assignee, s)
                    else Inr (msg_now tid new_assignee,
                              snd (update_ticket_assignment tid new_assignee s)))))"

definition answer_who :: "match \<Rightarrow> state \<Rightarrow> error + (string \<times> state)" where
  "answer_who who_match s =
     (case int_of_group (group who_match 1) of
        Inl e \<Rightarrow> Inl e
      | Inr tid \<Rightarrow>
          (case get_ticket_by_id (tickets s) tid of
             None \<Rightarrow> Inr (msg_not_found tid, s)
           | Some ticket \<Rightarrow> Inr (msg_assigned tid (assigned_to ticket), s)))"

definition answer_summary :: "match \<Rightarrow> state \<Rightarrow> error + (string \<times> state)" where
  "answer_summary summary_match s =
     (case int_of_group (group summary_match 1) of
        Inl e \<Rightarrow> Inl e
      | Inr tid \<Rightarrow>
          (case get_ticket_by_id (tickets s) tid of
             None \<Rightarrow> Inr (msg_not_found tid, s)
           | Some ticket \<Rightarrow> Inr (msg_summary tid ticket, s)))"

text \<open>
  What a rule answers to a normalised query when it is tried alone: None when its
  trigger does not hold, and otherwise the outcome of its branch. The fallback has no
  trigger and always answers.
\<close>

fun rule_answer :: "intent \<Rightarrow> string \<Rightarrow> state \<Rightarrow> (error + (string \<times> state)) option" where
  "rule_answer StatusListing query s =
     (if status_trigger query then
        Some (case re_search status_re query of
                Some status_match \<Rightarrow> answer_status status_match s
              | None \<Rightarrow> Inr (msg_specify_status, s))
      else None)"
| "rule_answer Reassignment query s =
     map_option (\<lambda>m. answer_assign m s) (re_search assign_re query)"
| "rule_answer Ownership query s =
     map_option (\<lambda>m. answer_who m s) (re_search who_re query)"
| "rule_answer Summary query s =
     map_option (\<lambda>m. answer_summary m s) (re_search summary_re query)"
| "rule_answer Fallback query s = Some (Inr (msg_fallback, s))"

text \<open>
  The digits that the branch answering a query hands to \<^verbatim>\<open>int\<close>: the first group of the
  pattern of that branch. The status listing and the fallback convert nothing.
\<close>

definition captured_id :: "string \<Rightarrow> string option" where
  "captured_id q =
     (let query = strip (lower q) in
      case classify q of
        StatusListing \<Rightarrow> None
      | Reassignment \<Rightarrow> Option.bind (re_search assign_re query) (\<lambda>m. group m 1)
      | Ownership \<Rightarrow> Option.bind (re_search who_re query) (\<lambda>m. group m 1)
      | Summary \<Rightarrow> Option.bind (re_search summary_re query) (\<lambda>m. group m 1)
      | Fallback \<Rightarrow> None)"

subsection \<open>Example data\<close>

definition ticket_1 :: ticket where
  "ticket_1 =
     \<lparr>ticket_id = 1, title = ''Login bug'', description = ''Cannot log in'',
      status = ''open'', assigned_to = ''Alice''\<rparr>"

definition ticket_2 :: ticket where
  "ticket_2 =
     \<lparr>ticket_id = 2, title = ''Slow page'', description = ''Reports take a minute'',
      status = ''Closed'', assigned_to = ''bob''\<rparr>"

definition ticket_3 :: ticket where
  "ticket_3 =
     \<lparr>ticket_id = 3, title = ''Printer'', description = ''Out of toner'',
      status = ''OPEN'', assigned_to = ''Carol''\<rparr>"

text \<open>A second ticket with the id 2, for the order of a lookup.\<close>

definition ticket_4 :: ticket where
  "ticket_4 =
     \<lparr>ticket_id = 2, title = ''Slow page again'', description = ''Duplicate report'',
      status = ''pending'', assigned_to = ''Dave''\<rparr>"

text \<open>A ticket whose owner's name starts with the sharp s, U+00DF.\<close>

definition ticket_5 :: ticket where
  "ticket_5 =
     \<lparr>ticket_id = 5, title = ''Badge'', description = ''Badge reader is down'',
      status = ''open'', assigned_to = [CHR 0xDF, CHR ''x'']\<rparr>"

definition state_2 :: state where
  "state_2 = \<lparr>tickets = [ticket_5], json_file = [ticket_5], writes = 0\<rparr>"

text \<open>An id of 4301 digits, one more than \<^verbatim>\<open>int\<close> converts.\<close>

definition long_id :: string where
  "long_id = replicate 4301 CHR ''1''"

definition state_1 :: state where
  "state_1 = \<lparr>tickets = [ticket_1, ticket_2, ticket_3],
              json_file = [ticket_1, ticket_2, ticket_3], writes = 0\<rparr>"

section \<open>Properties\<close>

subsection \<open>Lookup, filter and update\<close>

lemma get_ticket_by_id_None:
  "get_ticket_by_id ts tid = None \<longleftrightarrow> (\<forall>t\<in>set ts. ticket_id t \<noteq> tid)"
  by (induction ts) auto

lemma first_match_Cons_hit:
  assumes "ticket_id a = tid"
  shows "(\<exists>pre post. a # ts = pre @ t # post \<and> ticket_id t = tid \<and>
            (\<forall>u\<in>set pre. ticket_id u \<noteq> tid)) \<longleftrightarrow> a = t"
proof
  assume "\<exists>pre post. a # ts = pre @ t # post \<and> ticket_id t = tid \<and>
            (\<forall>u\<in>set pre. ticket_id u \<noteq> tid)"
  then obtain pre post where h: "a # ts = pre @ t # post" "\<forall>u\<in>set pre. ticket_id u \<noteq> tid"
    by blast
  show "a = t"
  proof (cases pre)
    case Nil
    with h show ?thesis by simp
  next
    case (Cons b pre')
    with h assms show ?thesis by auto
  qed
next
  assume "a = t"
  with assms have "a # ts = [] @ t # ts \<and> ticket_id t = tid \<and> (\<forall>u\<in>set []. ticket_id u \<noteq> tid)"
    by simp
  then show "\<exists>pre post. a # ts = pre @ t # post \<and> ticket_id t = tid \<and>
               (\<forall>u\<in>set pre. ticket_id u \<noteq> tid)"
    by blast
qed

lemma first_match_Cons_miss:
  assumes "ticket_id a \<noteq> tid"
  shows "(\<exists>pre post. a # ts = pre @ t # post \<and> ticket_id t = tid \<and>
            (\<forall>u\<in>set pre. ticket_id u \<noteq> tid)) \<longleftrightarrow>
         (\<exists>pre post. ts = pre @ t # post \<and> ticket_id t = tid \<and>
            (\<forall>u\<in>set pre. ticket_id u \<noteq> tid))"
    (is "?L \<longleftrightarrow> ?R")
proof
  assume ?L
  then obtain pre post where h: "a # ts = pre @ t # post" "ticket_id t = tid"
      "\<forall>u\<in>set pre. ticket_id u \<noteq> tid"
    by blast
  show ?R
  proof (cases pre)
    case Nil
    with h assms show ?thesis by simp
  next
    case (Cons b pre')
    with h show ?thesis by auto
  qed
next
  assume ?R
  then obtain pre post where h: "ts = pre @ t # post" "ticket_id t = tid"
      "\<forall>u\<in>set pre. ticket_id u \<noteq> tid"
    by blast
  with assms have "a # ts = (a # pre) @ t # post \<and> ticket_id t = tid \<and>
      (\<forall>u\<in>set (a # pre). ticket_id u \<noteq> tid)"
    by simp
  then show ?L by blast
qed

lemma get_ticket_by_id_Some:
  "get_ticket_by_id ts tid = Some t \<longleftrightarrow>
     (\<exists>pre post. ts = pre @ t # post \<and> ticket_id t = tid \<and>
        (\<forall>u\<in>set pre. ticket_id u \<noteq> tid))"
proof (induction ts)
  case Nil
  then show ?case by simp
next
  case (Cons a ts)
  show ?case
  proof (cases "ticket_id a = tid")
    case True
    with first_match_Cons_hit[OF True, of ts t] show ?thesis by simp
  next
    case False
    with first_match_Cons_miss[OF False, of ts t] Cons.IH show ?thesis by simp
  qed
qed

lemma list_tickets_by_status_filter:
  "list_tickets_by_status ts st = filter (\<lambda>t. lower (status t) = lower st) ts"
  by (induction ts) auto

lemma assign_first_None:
  "get_ticket_by_id ts tid = None \<Longrightarrow> assign_first tid a ts = (ts, None)"
  by (induction ts) (auto split: if_splits)

lemma assign_first_Some:
  "ts = pre @ t # post \<Longrightarrow> ticket_id t = tid \<Longrightarrow> \<forall>u\<in>set pre. ticket_id u \<noteq> tid \<Longrightarrow>
   assign_first tid a ts = (pre @ t\<lparr>assigned_to := a\<rparr> # post, Some (t\<lparr>assigned_to := a\<rparr>))"
  by (induction pre arbitrary: ts) auto

lemmas example_data =
  ticket_1_def ticket_2_def ticket_3_def ticket_4_def ticket_5_def state_1_def state_2_def

text \<open>
  C2. For every id and every collection, \<open>get_ticket_by_id\<close> returns a ticket exactly
  when the collection holds a ticket with that id, and None otherwise; the ticket it
  returns is the first one with the id in the order of the collection.
\<close>

theorem get_ticket_by_id_first_match:
  "((\<exists>t. get_ticket_by_id ts tid = Some t) \<longleftrightarrow> (\<exists>t\<in>set ts. ticket_id t = tid)) \<and>
   (get_ticket_by_id ts tid = None \<longleftrightarrow> (\<forall>t\<in>set ts. ticket_id t \<noteq> tid)) \<and>
   (\<forall>t. get_ticket_by_id ts tid = Some t \<longleftrightarrow>
      (\<exists>pre post. ts = pre @ t # post \<and> ticket_id t = tid \<and>
         (\<forall>u\<in>set pre. ticket_id u \<noteq> tid)))"
proof (intro conjI allI)
  have "(\<exists>t. get_ticket_by_id ts tid = Some t) \<longleftrightarrow> get_ticket_by_id ts tid \<noteq> None"
    by auto
  also have "\<dots> \<longleftrightarrow> (\<exists>t\<in>set ts. ticket_id t = tid)"
    by (auto simp: get_ticket_by_id_None)
  finally show "(\<exists>t. get_ticket_by_id ts tid = Some t) \<longleftrightarrow> (\<exists>t\<in>set ts. ticket_id t = tid)" .
  show "get_ticket_by_id ts tid = None \<longleftrightarrow> (\<forall>t\<in>set ts. ticket_id t \<noteq> tid)"
    by (rule get_ticket_by_id_None)
  show "get_ticket_by_id ts tid = Some t \<longleftrightarrow>
      (\<exists>pre post. ts = pre @ t # post \<and> ticket_id t = tid \<and>
         (\<forall>u\<in>set pre. ticket_id u \<noteq> tid))" for t
    by (rule get_ticket_by_id_Some)
qed

theorem get_ticket_by_id_first_match_witness:
  "get_ticket_by_id [ticket_1, ticket_2, ticket_4] 2 = Some ticket_2 \<and>
   get_ticket_by_id [ticket_1, ticket_2, ticket_4] 2 \<noteq> Some ticket_4 \<and>
   get_ticket_by_id [ticket_1, ticket_2, ticket_4] 5 = None"
proof -
  have "[ticket_1, ticket_2, ticket_4] = [ticket_1] @ ticket_2 # [ticket_4] \<and>
        ticket_id ticket_2 = 2 \<and> (\<forall>u\<in>set [ticket_1]. ticket_id u \<noteq> 2)"
    by (simp add: example_data)
  then have hit: "get_ticket_by_id [ticket_1, ticket_2, ticket_4] 2 = Some ticket_2"
    using get_ticket_by_id_first_match[of "[ticket_1, ticket_2, ticket_4]" 2] by blast
  have "\<forall>t\<in>set [ticket_1, ticket_2, ticket_4]. ticket_id t \<noteq> 5"
    by (simp add: example_data)
  then have miss: "get_ticket_by_id [ticket_1, ticket_2, ticket_4] 5 = None"
    using get_ticket_by_id_first_match[of "[ticket_1, ticket_2, ticket_4]" 5] by blast
  have "ticket_2 \<noteq> ticket_4" by (simp add: example_data)
  with hit miss show ?thesis by simp
qed

text \<open>
  C3. For every status string and every collection, \<open>list_tickets_by_status\<close> returns
  exactly the tickets whose status equals the argument without regard to case, in the
  order of the collection. It returns a list and no new collection: it is a function of
  the collection and the argument alone, so a second call on the same collection
  returns the same list, and filtering its result again changes nothing.
\<close>

theorem list_tickets_by_status_exact:
  "list_tickets_by_status ts st = filter (\<lambda>t. lower (status t) = lower st) ts \<and>
   subseq (list_tickets_by_status ts st) ts \<and>
   list_tickets_by_status (list_tickets_by_status ts st) st = list_tickets_by_status ts st"
  by (simp add: list_tickets_by_status_filter)

theorem list_tickets_by_status_exact_witness:
  "list_tickets_by_status [ticket_1, ticket_2, ticket_3] ''Open'' = [ticket_1, ticket_3]"
proof -
  have e: "filter (\<lambda>t. lower (status t) = lower ''Open'') [ticket_1, ticket_2, ticket_3] =
           [ticket_1, ticket_3]"
    by code_simp
  have "list_tickets_by_status [ticket_1, ticket_2, ticket_3] ''Open'' =
        filter (\<lambda>t. lower (status t) = lower ''Open'') [ticket_1, ticket_2, ticket_3]"
    using list_tickets_by_status_exact[of "[ticket_1, ticket_2, ticket_3]" "''Open''"]
    by (rule conjunct1)
  with e show ?thesis by (simp only:)
qed

text \<open>
  C5. When the ticket exists, \<open>update_ticket_assignment\<close> succeeds and returns the
  ticket with the new owner. In the collection only the first ticket with the id
  changes, and of that ticket only the field \<open>assigned_to\<close>; the tickets before and
  after it are the same. The whole collection is written to the file, once, so that
  loading the file again gives the state in memory.
\<close>

theorem update_ticket_assignment_frame:
  assumes "get_ticket_by_id (tickets s) tid = Some t"
  shows "\<exists>pre post t' s'.
           update_ticket_assignment tid a s = (Some t', s') \<and>
           tickets s = pre @ t # post \<and> (\<forall>u\<in>set pre. ticket_id u \<noteq> tid) \<and>
           tickets s' = pre @ t' # post \<and>
           t' = t\<lparr>assigned_to := a\<rparr> \<and>
           ticket_id t' = ticket_id t \<and> title t' = title t \<and>
           description t' = description t \<and> status t' = status t \<and> assigned_to t' = a \<and>
           json_file s' = tickets s' \<and> writes s' = Suc (writes s) \<and>
           load_tickets s' = s'"
proof -
  from assms obtain pre post where
    p: "tickets s = pre @ t # post" "ticket_id t = tid" "\<forall>u\<in>set pre. ticket_id u \<noteq> tid"
    unfolding get_ticket_by_id_Some by blast
  let ?t' = "t\<lparr>assigned_to := a\<rparr>"
  let ?s' = "s\<lparr>tickets := pre @ ?t' # post, json_file := pre @ ?t' # post,
               writes := Suc (writes s)\<rparr>"
  have "update_ticket_assignment tid a s = (Some ?t', ?s')"
    by (simp add: update_ticket_assignment_def assign_first_Some[OF p])
  moreover have "load_tickets ?s' = ?s'"
    by (simp add: load_tickets_def)
  ultimately show ?thesis
    using p by (intro exI[of _ pre] exI[of _ post] exI[of _ ?t'] exI[of _ ?s']) simp
qed

theorem update_ticket_assignment_frame_witness:
  "get_ticket_by_id (tickets state_1) 2 = Some ticket_2 \<and>
   fst (update_ticket_assignment 2 ''Erin'' state_1) = Some (ticket_2\<lparr>assigned_to := ''Erin''\<rparr>) \<and>
   tickets (snd (update_ticket_assignment 2 ''Erin'' state_1)) =
     [ticket_1, ticket_2\<lparr>assigned_to := ''Erin''\<rparr>, ticket_3] \<and>
   json_file (snd (update_ticket_assignment 2 ''Erin'' state_1)) =
     [ticket_1, ticket_2\<lparr>assigned_to := ''Erin''\<rparr>, ticket_3]"
proof -
  have h: "get_ticket_by_id (tickets state_1) 2 = Some ticket_2"
    by (simp add: example_data)
  from update_ticket_assignment_frame[OF h, of "''Erin''"] obtain pre post t' s' where
    u: "update_ticket_assignment 2 ''Erin'' state_1 = (Some t', s')"
       "tickets state_1 = pre @ ticket_2 # post" "\<forall>u\<in>set pre. ticket_id u \<noteq> 2"
       "tickets s' = pre @ t' # post" "t' = ticket_2\<lparr>assigned_to := ''Erin''\<rparr>"
       "json_file s' = tickets s'"
    by blast
  have "tickets state_1 = [ticket_1] @ ticket_2 # [ticket_3]"
    by (simp add: example_data)
  with u(2,3) have "pre = [ticket_1] \<and> post = [ticket_3]"
    by (cases pre) (auto simp: example_data Cons_eq_append_conv)
  with h u show ?thesis by simp
qed

text \<open>
  C6. When no ticket of the collection has the id, \<open>update_ticket_assignment\<close> returns
  None and leaves the state as it was: the collection in memory, the file, and the
  number of writes.
\<close>

theorem update_ticket_assignment_not_found:
  assumes "\<forall>t\<in>set (tickets s). ticket_id t \<noteq> tid"
  shows "update_ticket_assignment tid a s = (None, s)"
proof -
  from assms have "get_ticket_by_id (tickets s) tid = None"
    by (simp add: get_ticket_by_id_None)
  then show ?thesis
    by (simp add: update_ticket_assignment_def assign_first_None)
qed

theorem update_ticket_assignment_not_found_witness:
  "get_ticket_by_id (tickets state_1) 99 = None \<and>
   update_ticket_assignment 99 ''Erin'' state_1 = (None, state_1)"
proof -
  have h: "\<forall>t\<in>set (tickets state_1). ticket_id t \<noteq> 99"
    by (simp add: example_data)
  from update_ticket_assignment_not_found[OF h] show ?thesis
    by (simp add: example_data)
qed

subsection \<open>Strings\<close>

lemma starts_with_prefix: "starts_with w s \<longleftrightarrow> prefix w s"
  by (induction w s rule: starts_with.induct) auto

lemma starts_with_append: "starts_with w s \<longleftrightarrow> (\<exists>post. s = w @ post)"
  by (simp add: starts_with_prefix prefix_def)

lemma str_in_sublist: "str_in w s \<longleftrightarrow> sublist w s"
  by (induction s) (auto simp: starts_with_prefix sublist_Cons_right)

lemma digit_plain:
  assumes "is_digit c"
  shows "\<not> is_space c \<and> c \<noteq> CHR ''-'' \<and> c \<noteq> CHR ''+'' \<and> c \<noteq> CHR ''_''"
proof -
  have "list_all (\<lambda>c. \<not> is_space c \<and> c \<noteq> CHR ''-'' \<and> c \<noteq> CHR ''+'' \<and> c \<noteq> CHR ''_'')
          digit_chars"
    by code_simp
  with assms show ?thesis by (simp add: list_all_iff is_digit_def)
qed

lemma strip_no_space:
  assumes "s \<noteq> []" "\<not> is_space (hd s)" "\<not> is_space (last s)"
  shows "strip s = s"
proof -
  from assms have l: "lstrip s = s"
    by (cases s) (simp_all add: lstrip_def)
  from assms have "dropWhile is_space (rev s) = rev s"
    by (cases "rev s") (simp_all add: last_rev[symmetric] hd_rev)
  then show ?thesis by (simp add: strip_def rstrip_def l)
qed

lemma int_body_ok_digits: "s \<noteq> [] \<Longrightarrow> \<forall>c\<in>set s. is_digit c \<Longrightarrow> int_body_ok s"
  by (induction s rule: int_body_ok.induct) (auto dest: digit_plain)

text \<open>
  On a run of digits, as \<^verbatim>\<open>\d+\<close> captures it, \<^verbatim>\<open>int\<close> raises only for the number of
  digits.
\<close>

lemma py_int_digits:
  assumes "d \<noteq> []" "\<forall>c\<in>set d. is_digit c"
  shows "py_int d = (if max_str_digits < length d then Inl ValueError else Inr (int_value d))"
proof -
  from assms have "\<not> is_space (hd d)" "\<not> is_space (last d)"
    using digit_plain by auto
  with assms have s: "strip d = d" by (simp add: strip_no_space)
  from assms obtain c cs where d: "d = c # cs" by (cases d) auto
  with assms have "is_digit c" by simp
  then have c: "c \<noteq> CHR ''-''" "c \<noteq> CHR ''+''" using digit_plain by blast+
  from assms have f: "filter is_digit d = d" by simp
  from assms have "int_body_ok d" by (rule int_body_ok_digits)
  with f have "int_digits d =
      (if max_str_digits < length d then Inl ValueError else Inr (int_value d))"
    by (simp add: int_digits_def)
  with c d s show ?thesis by (simp add: py_int_def)
qed

lemma str_in_set: "str_in w s \<Longrightarrow> set w \<subseteq> set s"
  unfolding str_in_sublist by (rule set_mono_sublist)

subsection \<open>Regular expressions\<close>

lemma in_rmatch_Lit:
  "(s', g') \<in> set (rmatch (Lit w) s g) \<longleftrightarrow> s = w @ s' \<and> g' = g"
  by (auto simp: starts_with_append)

lemma set_rmatch_Plus:
  "set (rmatch (Plus c) s g) =
     (\<lambda>n. (drop n s, g)) ` {1 ..< Suc (length (takeWhile (in_class c) s))}"
  by (simp only: rmatch.simps set_map set_rev set_upt)

lemma take_takeWhile:
  assumes "n \<le> length (takeWhile P s)"
  shows "take n s = take n (takeWhile P s)"
proof -
  have "take n s = take n (takeWhile P s @ dropWhile P s)" by simp
  also have "\<dots> = take n (takeWhile P s)" using assms by (simp del: takeWhile_dropWhile_id)
  finally show ?thesis .
qed

lemma in_rmatch_Plus:
  "(s', g') \<in> set (rmatch (Plus c) s g) \<longleftrightarrow>
     (\<exists>d. d \<noteq> [] \<and> (\<forall>x\<in>set d. in_class c x) \<and> s = d @ s' \<and> g' = g
          \<and> length d \<le> length (takeWhile (in_class c) s))"
    (is "?L \<longleftrightarrow> ?R")
proof
  assume ?L
  then obtain n where n: "1 \<le> n" "n \<le> length (takeWhile (in_class c) s)"
      "s' = drop n s" "g' = g"
    unfolding set_rmatch_Plus by auto
  have tk: "take n s = take n (takeWhile (in_class c) s)"
    using n(2) by (rule take_takeWhile)
  show ?R
  proof (intro exI[of _ "take n s"] conjI)
    have "n \<le> length s"
      using n(2) length_takeWhile_le[of "in_class c" s] by linarith
    with n(1) show "take n s \<noteq> []" by auto
    show "\<forall>x\<in>set (take n s). in_class c x"
      unfolding tk by (meson in_set_takeD set_takeWhileD)
    show "s = take n s @ s'" using n(3) by simp
    show "g' = g" by fact
    show "length (take n s) \<le> length (takeWhile (in_class c) s)" using n(2) by simp
  qed
next
  assume ?R
  then obtain d where d: "d \<noteq> []" "s = d @ s'" "g' = g"
      "length d \<le> length (takeWhile (in_class c) s)"
    by blast
  then have "1 \<le> length d" by (cases d) auto
  with d(4) have "length d \<in> {1 ..< Suc (length (takeWhile (in_class c) s))}"
    by simp
  then have "(drop (length d) s, g) \<in>
      (\<lambda>n. (drop n s, g)) ` {1 ..< Suc (length (takeWhile (in_class c) s))}"
    by (rule imageI)
  then show ?L
    unfolding set_rmatch_Plus using d(2,3) by simp
qed

lemma in_rmatch_Opt:
  "(s', g') \<in> set (rmatch (Opt r) s g) \<longleftrightarrow>
     (s', g') \<in> set (rmatch r s g) \<or> (s' = s \<and> g' = g)"
  by auto

lemma in_rmatch_Cat:
  "(s', g') \<in> set (rmatch (Cat r1 r2) s g) \<longleftrightarrow>
     (\<exists>s1 g1. (s1, g1) \<in> set (rmatch r1 s g) \<and> (s', g') \<in> set (rmatch r2 s1 g1))"
  by auto

lemma in_rmatch_Alt:
  "(s', g') \<in> set (rmatch (Alt r1 r2) s g) \<longleftrightarrow>
     (s', g') \<in> set (rmatch r1 s g) \<or> (s', g') \<in> set (rmatch r2 s g)"
  by auto

lemma in_rmatch_Grp:
  "(s', g') \<in> set (rmatch (Grp k r) s g) \<longleftrightarrow>
     (\<exists>g1. (s', g1) \<in> set (rmatch r s g) \<and> g' = g1(k \<mapsto> take (length s - length s') s))"
  by auto

lemma in_rmatch_Grp_Plus:
  "(s', g') \<in> set (rmatch (Grp k (Plus c)) s g) \<longleftrightarrow>
     (\<exists>d. d \<noteq> [] \<and> (\<forall>x\<in>set d. in_class c x) \<and> s = d @ s' \<and> g' = g(k \<mapsto> d)
          \<and> length d \<le> length (takeWhile (in_class c) s))"
  unfolding in_rmatch_Grp in_rmatch_Plus by auto

lemmas in_rmatch =
  in_rmatch_Cat in_rmatch_Lit in_rmatch_Opt in_rmatch_Alt in_rmatch_Grp_Plus in_class.simps

text \<open>A match that \<^verbatim>\<open>re.search\<close> returns is a match of the pattern at some position.\<close>

lemma re_search_SomeD:
  "re_search r s = Some m \<Longrightarrow>
     \<exists>t s'. suffix t s \<and> (s', snd m) \<in> set (rmatch r t Map.empty)"
proof (induction s)
  case Nil
  show ?case
  proof (cases "rmatch r [] Map.empty")
    case Nil
    with Nil.prems show ?thesis by simp
  next
    case (Cons x xs)
    obtain s' g where x: "x = (s', g)" by (cases x)
    with Cons Nil.prems have "snd m = g" by auto
    with Cons x have "(s', snd m) \<in> set (rmatch r [] Map.empty)" by simp
    then show ?thesis by (meson suffix_order.order_refl)
  qed
next
  case (Cons c cs)
  show ?case
  proof (cases "rmatch r (c # cs) Map.empty")
    case Nil
    with Cons.prems have "re_search r cs = Some m" by simp
    from Cons.IH[OF this] obtain t s' where
      "suffix t cs" "(s', snd m) \<in> set (rmatch r t Map.empty)"
      by blast
    then show ?thesis by (meson suffix_Cons)
  next
    case (Cons x xs)
    obtain s' g where x: "x = (s', g)" by (cases x)
    with Cons Cons.prems have "snd m = g" by auto
    with Cons x have "(s', snd m) \<in> set (rmatch r (c # cs) Map.empty)" by simp
    then show ?thesis by (meson suffix_order.order_refl)
  qed
qed

text \<open>What the groups of the three patterns with groups hold after a match.\<close>

lemma assign_re_groups:
  assumes "(s', g') \<in> set (rmatch assign_re s g)"
  shows "\<exists>d n. g' 1 = Some d \<and> d \<noteq> [] \<and> (\<forall>c\<in>set d. is_digit c)
             \<and> g' 2 = Some n \<and> n \<noteq> [] \<and> (\<forall>c\<in>set n. is_word c)"
proof -
  from assms obtain d n g1 where
    "d \<noteq> []" "\<forall>c\<in>set d. is_digit c" "n \<noteq> []" "\<forall>c\<in>set n. is_word c"
    "g' = g1(1 \<mapsto> d, 2 \<mapsto> n)"
    unfolding assign_re_def in_rmatch by blast
  then show ?thesis by simp
qed

lemma who_re_groups:
  assumes "(s', g') \<in> set (rmatch who_re s g)"
  shows "\<exists>d. g' 1 = Some d \<and> d \<noteq> [] \<and> (\<forall>c\<in>set d. is_digit c)"
proof -
  from assms obtain d g1 where "d \<noteq> []" "\<forall>c\<in>set d. is_digit c" "g' = g1(1 \<mapsto> d)"
    unfolding who_re_def in_rmatch by blast
  then show ?thesis by simp
qed

lemma summary_re_groups:
  assumes "(s', g') \<in> set (rmatch summary_re s g)"
  shows "\<exists>d. g' 1 = Some d \<and> d \<noteq> [] \<and> (\<forall>c\<in>set d. is_digit c)"
proof -
  from assms obtain d g1 where "d \<noteq> []" "\<forall>c\<in>set d. is_digit c" "g' = g1(1 \<mapsto> d)"
    unfolding summary_re_def in_rmatch by blast
  then show ?thesis by simp
qed

text \<open>
  So \<^verbatim>\<open>m.group(1)\<close> is a run of digits and \<^verbatim>\<open>m.group(2)\<close> is a string whenever one of the
  three searches matched, and \<^verbatim>\<open>int(m.group(1))\<close> raises only for the number of digits.
\<close>

lemma int_of_group_digits:
  assumes "group m 1 = Some d" "d \<noteq> []" "\<forall>c\<in>set d. is_digit c"
  shows "int_of_group (group m 1) =
           (if max_str_digits < length d then Inl ValueError else Inr (int_value d))"
  using assms by (simp add: int_of_group_def py_int_digits)

lemma assign_match_groups:
  assumes "re_search assign_re query = Some m"
  shows "\<exists>d n. group m 1 = Some d \<and> group m 2 = Some n \<and>
           int_of_group (group m 1) =
             (if max_str_digits < length d then Inl ValueError else Inr (int_value d))"
proof -
  from re_search_SomeD[OF assms] obtain t s' where
    "(s', snd m) \<in> set (rmatch assign_re t Map.empty)" by blast
  from assign_re_groups[OF this] obtain d n where
    g: "snd m 1 = Some d" "d \<noteq> []" "\<forall>c\<in>set d. is_digit c" "snd m 2 = Some n" by blast
  then have "group m 1 = Some d" "group m 2 = Some n" by (simp_all add: group_def)
  with int_of_group_digits[OF this(1) g(2,3)] show ?thesis by blast
qed

lemma who_match_groups:
  assumes "re_search who_re query = Some m"
  shows "\<exists>d. group m 1 = Some d \<and>
           int_of_group (group m 1) =
             (if max_str_digits < length d then Inl ValueError else Inr (int_value d))"
proof -
  from re_search_SomeD[OF assms] obtain t s' where
    "(s', snd m) \<in> set (rmatch who_re t Map.empty)" by blast
  from who_re_groups[OF this] obtain d where
    g: "snd m 1 = Some d" "d \<noteq> []" "\<forall>c\<in>set d. is_digit c" by blast
  then have "group m 1 = Some d" by (simp add: group_def)
  with int_of_group_digits[OF this g(2,3)] show ?thesis by blast
qed

lemma summary_match_groups:
  assumes "re_search summary_re query = Some m"
  shows "\<exists>d. group m 1 = Some d \<and>
           int_of_group (group m 1) =
             (if max_str_digits < length d then Inl ValueError else Inr (int_value d))"
proof -
  from re_search_SomeD[OF assms] obtain t s' where
    "(s', snd m) \<in> set (rmatch summary_re t Map.empty)" by blast
  from summary_re_groups[OF this] obtain d where
    g: "snd m 1 = Some d" "d \<noteq> []" "\<forall>c\<in>set d. is_digit c" by blast
  then have "group m 1 = Some d" by (simp add: group_def)
  with int_of_group_digits[OF this g(2,3)] show ?thesis by blast
qed

subsection \<open>The status pattern\<close>

lemma in_rmatch_status:
  "(s', g') \<in> set (rmatch status_re s g) \<longleftrightarrow>
     (\<exists>k. is_status_keyword k \<and> s = k @ s') \<and> g' = g"
  unfolding status_re_def in_rmatch is_status_keyword_def by blast

lemma rmatch_status_Nil:
  "rmatch status_re s g = [] \<longleftrightarrow> \<not> (\<exists>k. is_status_keyword k \<and> starts_with k s)"
proof -
  have "rmatch status_re s g = [] \<longleftrightarrow> (\<forall>s' g'. (s', g') \<notin> set (rmatch status_re s g))"
    by (cases "rmatch status_re s g") auto
  also have "\<dots> \<longleftrightarrow> \<not> (\<exists>k. is_status_keyword k \<and> starts_with k s)"
    unfolding in_rmatch_status starts_with_append by blast
  finally show ?thesis .
qed

lemma rmatch_status_Cons:
  assumes "rmatch status_re s g = (s', g') # rest"
  shows "\<exists>k. is_status_keyword k \<and> s = k @ s' \<and> take (length s - length s') s = k"
proof -
  from assms have "(s', g') \<in> set (rmatch status_re s g)" by simp
  then obtain k where "is_status_keyword k" "s = k @ s'"
    unfolding in_rmatch_status by blast
  then show ?thesis by auto
qed

lemma rmatch_status_empty: "rmatch status_re [] g = []"
  by (simp add: status_re_def)

text \<open>The search fails exactly when none of the three keywords occurs in the text.\<close>

lemma status_search_None:
  "re_search status_re s = None \<longleftrightarrow> \<not> (\<exists>k. is_status_keyword k \<and> str_in k s)"
proof (induction s)
  case Nil
  have "rmatch status_re [] Map.empty = []"
    by (rule rmatch_status_empty)
  moreover have "\<not> (\<exists>k. is_status_keyword k \<and> str_in k [])"
    by (auto simp: is_status_keyword_def)
  ultimately show ?case by simp
next
  case (Cons c cs)
  show ?case
  proof (cases "rmatch status_re (c # cs) Map.empty")
    case Nil
    then have "\<not> (\<exists>k. is_status_keyword k \<and> starts_with k (c # cs))"
      unfolding rmatch_status_Nil .
    then have "(\<exists>k. is_status_keyword k \<and> str_in k (c # cs)) \<longleftrightarrow>
               (\<exists>k. is_status_keyword k \<and> str_in k cs)"
      by auto
    with Nil Cons.IH show ?thesis by simp
  next
    case (Cons x xs)
    obtain s' g where x: "x = (s', g)" by (cases x)
    with Cons rmatch_status_Cons[of "c # cs" Map.empty s' g xs]
    obtain k where "is_status_keyword k" "c # cs = k @ s'" by blast
    then have "is_status_keyword k \<and> starts_with k (c # cs)"
      unfolding starts_with_append by blast
    then have "is_status_keyword k \<and> str_in k (c # cs)"
      by simp
    moreover from Cons x have "re_search status_re (c # cs) \<noteq> None" by simp
    ultimately show ?thesis by blast
  qed
qed

text \<open>
  When the search succeeds, the text matched is a keyword, and no keyword occurs at an
  earlier position.
\<close>

lemma status_search_Some:
  "re_search status_re s = Some m \<Longrightarrow>
     \<exists>pre post. s = pre @ group0 m @ post \<and> is_status_keyword (group0 m) \<and>
       (\<forall>k pre' post'. is_status_keyword k \<longrightarrow> s = pre' @ k @ post' \<longrightarrow>
          length pre \<le> length pre')"
proof (induction s)
  case Nil
  have "rmatch status_re [] Map.empty = []"
    by (rule rmatch_status_empty)
  with Nil show ?case by simp
next
  case (Cons c cs)
  show ?case
  proof (cases "rmatch status_re (c # cs) Map.empty")
    case Nil
    with Cons.prems have "re_search status_re cs = Some m" by simp
    from Cons.IH[OF this] obtain pre post where
      p: "cs = pre @ group0 m @ post" "is_status_keyword (group0 m)"
         "\<And>k pre' post'. is_status_keyword k \<Longrightarrow> cs = pre' @ k @ post' \<Longrightarrow>
            length pre \<le> length pre'"
      by blast
    from Nil have no: "\<And>k. is_status_keyword k \<Longrightarrow> \<not> starts_with k (c # cs)"
      unfolding rmatch_status_Nil by blast
    have "length (c # pre) \<le> length pre'"
      if k: "is_status_keyword k" and e: "c # cs = pre' @ k @ post'" for k pre' post'
    proof (cases pre')
      case Nil
      with e have "starts_with k (c # cs)"
        by (simp only: starts_with_append) auto
      with no[OF k] show ?thesis by blast
    next
      case (Cons b pre'')
      with e have "cs = pre'' @ k @ post'" by simp
      from p(3)[OF k this] Cons show ?thesis by simp
    qed
    moreover from p(1) have "c # cs = (c # pre) @ group0 m @ post" by simp
    ultimately show ?thesis using p(2) by blast
  next
    case (Cons x xs)
    obtain s' g where x: "x = (s', g)" by (cases x)
    with Cons rmatch_status_Cons[of "c # cs" Map.empty s' g xs]
    obtain k where k: "is_status_keyword k" "c # cs = k @ s'"
        "take (length (c # cs) - length s') (c # cs) = k"
      by blast
    from Cons x Cons.prems have "m = (take (length (c # cs) - length s') (c # cs), g)"
      by simp
    with k(3) have "group0 m = k" by (simp add: group0_def)
    with k(1,2) have "c # cs = [] @ group0 m @ s' \<and> is_status_keyword (group0 m)"
      by simp
    then show ?thesis by (metis le0 list.size(3))
  qed
qed

subsection \<open>The branches of the router\<close>

lemma status_trigger_keyword:
  "status_trigger query \<Longrightarrow> \<exists>k. is_status_keyword k \<and> str_in k query"
  unfolding status_trigger_def is_status_keyword_def by blast

text \<open>\<^verbatim>\<open>process_query\<close> is its chain of tests over the bodies of the branches.\<close>

lemma process_query_dispatch:
  "process_query q s =
     (if status_trigger (strip (lower q)) then
        (case re_search status_re (strip (lower q)) of
           Some m \<Rightarrow> answer_status m s
         | None \<Rightarrow> Inr (msg_specify_status, s))
      else
        (case re_search assign_re (strip (lower q)) of
           Some m \<Rightarrow> answer_assign m s
         | None \<Rightarrow>
        (case re_search who_re (strip (lower q)) of
           Some m \<Rightarrow> answer_who m s
         | None \<Rightarrow>
        (case re_search summary_re (strip (lower q)) of
           Some m \<Rightarrow> answer_summary m s
         | None \<Rightarrow> Inr (msg_fallback, s)))))"
  by (simp add: process_query_def answer_status_def answer_assign_def answer_who_def
      answer_summary_def Let_def split: option.splits)

lemma process_query_rules:
  "Some (process_query q s) =
     rule_answer (case triggers q of [] \<Rightarrow> Fallback | c # cs \<Rightarrow> c) (strip (lower q)) s"
  by (auto simp: process_query_dispatch triggers_def Let_def split: option.splits)

lemma answer_assign_outcome:
  assumes "re_search assign_re query = Some m"
  shows "\<exists>d n. group m 1 = Some d \<and> group m 2 = Some n \<and>
           answer_assign m s =
             (if max_str_digits < length d then Inl ValueError
              else case get_ticket_by_id (tickets s) (int_value d) of
                None \<Rightarrow> Inr (msg_not_found (int_value d), s)
              | Some t \<Rightarrow>
                  if lower (assigned_to t) = lower (capitalize n)
                  then Inr (msg_already (int_value d) (capitalize n), s)
                  else Inr (msg_now (int_value d) (capitalize n),
                            snd (update_ticket_assignment (int_value d) (capitalize n) s)))"
proof -
  from assign_match_groups[OF assms] obtain d n where
    g: "group m 1 = Some d" "group m 2 = Some n"
       "int_of_group (group m 1) =
          (if max_str_digits < length d then Inl ValueError else Inr (int_value d))"
    by blast
  have "answer_assign m s =
      (if max_str_digits < length d then Inl ValueError
       else case get_ticket_by_id (tickets s) (int_value d) of
         None \<Rightarrow> Inr (msg_not_found (int_value d), s)
       | Some t \<Rightarrow>
           if lower (assigned_to t) = lower (capitalize n)
           then Inr (msg_already (int_value d) (capitalize n), s)
           else Inr (msg_now (int_value d) (capitalize n),
                     snd (update_ticket_assignment (int_value d) (capitalize n) s)))"
    unfolding answer_assign_def g(3) using g(2) by (simp add: Let_def)
  with g(1,2) show ?thesis by blast
qed

lemma answer_who_outcome:
  assumes "re_search who_re query = Some m"
  shows "\<exists>d. group m 1 = Some d \<and>
           answer_who m s =
             (if max_str_digits < length d then Inl ValueError
              else case get_ticket_by_id (tickets s) (int_value d) of
                None \<Rightarrow> Inr (msg_not_found (int_value d), s)
              | Some t \<Rightarrow> Inr (msg_assigned (int_value d) (assigned_to t), s))"
proof -
  from who_match_groups[OF assms] obtain d where
    g: "group m 1 = Some d"
       "int_of_group (group m 1) =
          (if max_str_digits < length d then Inl ValueError else Inr (int_value d))"
    by blast
  have "answer_who m s =
      (if max_str_digits < length d then Inl ValueError
       else case get_ticket_by_id (tickets s) (int_value d) of
         None \<Rightarrow> Inr (msg_not_found (int_value d), s)
       | Some t \<Rightarrow> Inr (msg_assigned (int_value d) (assigned_to t), s))"
    unfolding answer_who_def g(2) by simp
  with g(1) show ?thesis by blast
qed

lemma answer_summary_outcome:
  assumes "re_search summary_re query = Some m"
  shows "\<exists>d. group m 1 = Some d \<and>
           answer_summary m s =
             (if max_str_digits < length d then Inl ValueError
              else case get_ticket_by_id (tickets s) (int_value d) of
                None \<Rightarrow> Inr (msg_not_found (int_value d), s)
              | Some t \<Rightarrow> Inr (msg_summary (int_value d) t, s))"
proof -
  from summary_match_groups[OF assms] obtain d where
    g: "group m 1 = Some d"
       "int_of_group (group m 1) =
          (if max_str_digits < length d then Inl ValueError else Inr (int_value d))"
    by blast
  have "answer_summary m s =
      (if max_str_digits < length d then Inl ValueError
       else case get_ticket_by_id (tickets s) (int_value d) of
         None \<Rightarrow> Inr (msg_not_found (int_value d), s)
       | Some t \<Rightarrow> Inr (msg_summary (int_value d) t, s))"
    unfolding answer_summary_def g(2) by simp
  with g(1) show ?thesis by blast
qed

lemma process_query_status:
  assumes "status_trigger (strip (lower q))"
  shows "\<exists>m. re_search status_re (strip (lower q)) = Some m \<and> is_status_keyword (group0 m) \<and>
             process_query q s = Inr (status_listing_reply (tickets s) (group0 m), s)"
proof -
  from status_trigger_keyword[OF assms] have "re_search status_re (strip (lower q)) \<noteq> None"
    by (simp only: status_search_None not_not)
  then obtain m where m: "re_search status_re (strip (lower q)) = Some m" by blast
  from status_search_Some[OF m] have "is_status_keyword (group0 m)" by blast
  moreover from assms m
  have "process_query q s = Inr (status_listing_reply (tickets s) (group0 m), s)"
    by (simp add: process_query_def Let_def status_listing_reply_def)
  ultimately show ?thesis using m by blast
qed

text \<open>
  The outcome of a query: \<^verbatim>\<open>int\<close> raises ValueError when the id that the answering
  branch captured has more digits than it converts; otherwise the query gets a reply of
  its category.
\<close>

lemma process_query_outcome:
  "if \<exists>d. captured_id q = Some d \<and> max_str_digits < length d
   then process_query q s = Inl ValueError
   else \<exists>r s'. process_query q s = Inr (r, s') \<and> reply_of (classify q) s r s'"
proof (cases "status_trigger (strip (lower q))")
  case True
  then have c: "classify q = StatusListing" by (simp add: classify_def Let_def)
  then have i: "captured_id q = None" by (simp add: captured_id_def Let_def)
  from process_query_status[OF True, of s] show ?thesis
    unfolding c i by (auto simp: reply_of_def)
next
  case st: False
  show ?thesis
  proof (cases "re_search assign_re (strip (lower q))")
    case (Some m)
    with st have c: "classify q = Reassignment" by (simp add: classify_def Let_def)
    from st Some have p: "process_query q s = answer_assign m s"
      by (simp add: process_query_dispatch)
    from answer_assign_outcome[OF Some, of s] obtain d n where
      g: "group m 1 = Some d"
      and a: "answer_assign m s =
             (if max_str_digits < length d then Inl ValueError
              else case get_ticket_by_id (tickets s) (int_value d) of
                None \<Rightarrow> Inr (msg_not_found (int_value d), s)
              | Some t \<Rightarrow>
                  if lower (assigned_to t) = lower (capitalize n)
                  then Inr (msg_already (int_value d) (capitalize n), s)
                  else Inr (msg_now (int_value d) (capitalize n),
                            snd (update_ticket_assignment (int_value d) (capitalize n) s)))"
      by blast
    from c Some g have i: "captured_id q = Some d" by (simp add: captured_id_def Let_def)
    show ?thesis
    proof (cases "max_str_digits < length d")
      case True
      with p a i show ?thesis by simp
    next
      case short: False
      show ?thesis
      proof (cases "get_ticket_by_id (tickets s) (int_value d)")
        case None
        with p a short have "process_query q s = Inr (msg_not_found (int_value d), s)" by simp
        with None short i show ?thesis unfolding c by (auto simp: reply_of_def)
      next
        case (Some t)
        show ?thesis
        proof (cases "lower (assigned_to t) = lower (capitalize n)")
          case True
          with p a short Some
          have "process_query q s = Inr (msg_already (int_value d) (capitalize n), s)"
            by simp
          with Some True short i show ?thesis unfolding c by (auto simp: reply_of_def)
        next
          case False
          with p a short Some have "process_query q s =
              Inr (msg_now (int_value d) (capitalize n),
                   snd (update_ticket_assignment (int_value d) (capitalize n) s))"
            by simp
          with Some False short i show ?thesis unfolding c by (auto simp: reply_of_def)
        qed
      qed
    qed
  next
    case as: None
    show ?thesis
    proof (cases "re_search who_re (strip (lower q))")
      case (Some m)
      with st as have c: "classify q = Ownership" by (simp add: classify_def Let_def)
      from st as Some have p: "process_query q s = answer_who m s"
        by (simp add: process_query_dispatch)
      from answer_who_outcome[OF Some, of s] obtain d where
        g: "group m 1 = Some d"
        and a: "answer_who m s =
             (if max_str_digits < length d then Inl ValueError
              else case get_ticket_by_id (tickets s) (int_value d) of
                None \<Rightarrow> Inr (msg_not_found (int_value d), s)
              | Some t \<Rightarrow> Inr (msg_assigned (int_value d) (assigned_to t), s))"
        by blast
      from c Some g have i: "captured_id q = Some d" by (simp add: captured_id_def Let_def)
      show ?thesis
      proof (cases "max_str_digits < length d")
        case True
        with p a i show ?thesis by simp
      next
        case False
        with p a i show ?thesis
          unfolding c
          by (cases "get_ticket_by_id (tickets s) (int_value d)") (auto simp: reply_of_def)
      qed
    next
      case wh: None
      show ?thesis
      proof (cases "re_search summary_re (strip (lower q))")
        case (Some m)
        with st as wh have c: "classify q = Summary" by (simp add: classify_def Let_def)
        from st as wh Some have p: "process_query q s = answer_summary m s"
          by (simp add: process_query_dispatch)
        from answer_summary_outcome[OF Some, of s] obtain d where
          g: "group m 1 = Some d"
          and a: "answer_summary m s =
               (if max_str_digits < length d then Inl ValueError
                else case get_ticket_by_id (tickets s) (int_value d) of
                  None \<Rightarrow> Inr (msg_not_found (int_value d), s)
                | Some t \<Rightarrow> Inr (msg_summary (int_value d) t, s))"
          by blast
        from c Some g have i: "captured_id q = Some d"
          by (simp add: captured_id_def Let_def)
        show ?thesis
        proof (cases "max_str_digits < length d")
          case True
          with p a i show ?thesis by simp
        next
          case False
          with p a i show ?thesis
            unfolding c
            by (cases "get_ticket_by_id (tickets s) (int_value d)") (auto simp: reply_of_def)
        qed
      next
        case None
        with st as wh have c: "classify q = Fallback" by (simp add: classify_def Let_def)
        then have i: "captured_id q = None" by (simp add: captured_id_def Let_def)
        from st as wh None have "process_query q s = Inr (msg_fallback, s)"
          by (simp add: process_query_dispatch)
        then show ?thesis unfolding c i by (simp add: reply_of_def)
      qed
    qed
  qed
qed

lemma process_query_Inr_reply:
  "process_query q s = Inr (r, s') \<Longrightarrow> reply_of (classify q) s r s'"
  using process_query_outcome[of q s] by (auto split: if_splits)

lemma process_query_Inl:
  "process_query q s = Inl e \<Longrightarrow> e = ValueError"
  using process_query_outcome[of q s] by (auto split: if_splits)

text \<open>
  C1, as the program has it. For every input string and every state the query has one
  of the five categories. \<open>process_query\<close> returns a reply of that category, unless the id
  captured by the reassignment, ownership or summary pattern has more than 4300 digits:
  then \<^verbatim>\<open>int\<close> raises ValueError, which nothing handles. No other failure occurs.
\<close>

theorem process_query_total:
  "if \<exists>d. captured_id q = Some d \<and> max_str_digits < length d
   then process_query q s = Inl ValueError
   else \<exists>r s'. process_query q s = Inr (r, s') \<and> reply_of (classify q) s r s'"
  by (rule process_query_outcome)

theorem process_query_total_witness:
  "classify ''assign ticket 1 to Bob'' = Reassignment \<and>
   captured_id ''assign ticket 1 to Bob'' = Some ''1'' \<and>
   (\<exists>r s'. process_query ''assign ticket 1 to Bob'' state_1 = Inr (r, s') \<and>
            reply_of Reassignment state_1 r s')"
proof -
  have c: "classify ''assign ticket 1 to Bob'' = Reassignment" by code_simp
  have i: "captured_id ''assign ticket 1 to Bob'' = Some ''1''" by code_simp
  have "\<not> (\<exists>d. Some ''1'' = Some d \<and> max_str_digits < length d)"
    by (simp add: max_str_digits_def)
  with process_query_total[of "''assign ticket 1 to Bob''" state_1]
  have "\<exists>r s'. process_query ''assign ticket 1 to Bob'' state_1 = Inr (r, s') \<and>
               reply_of (classify ''assign ticket 1 to Bob'') state_1 r s'"
    unfolding i by (simp only: if_False)
  with c i show ?thesis by simp
qed

text \<open>A query with an id of 4301 digits, step by step.\<close>

lemma long_id_facts:
  "long_id \<noteq> []" "set long_id = {CHR ''1''}" "length long_id = 4301"
  "last long_id = CHR ''1''" "map to_lower long_id = long_id"
proof -
  have l: "to_lower CHR ''1'' = CHR ''1''" by code_simp
  show "long_id \<noteq> []" "set long_id = {CHR ''1''}" "length long_id = 4301"
    "last long_id = CHR ''1''" "map to_lower long_id = long_id"
    by (simp_all add: long_id_def l)
qed

lemma long_id_digits: "\<forall>c\<in>set long_id. in_class Digit c"
  by (simp add: long_id_facts is_digit_def digit_chars_def)

lemma re_search_hit:
  assumes "s \<noteq> []" "rmatch r s Map.empty = (s', g) # rest"
  shows "re_search r s = Some (take (length s - length s') s, g)"
  using assms by (cases s) simp_all

lemma re_search_Lit_None:
  assumes "\<not> set w \<subseteq> set s"
  shows "re_search (Cat (Lit w) r) s = None"
proof (rule ccontr)
  assume "re_search (Cat (Lit w) r) s \<noteq> None"
  then obtain m where "re_search (Cat (Lit w) r) s = Some m" by blast
  from re_search_SomeD[OF this] obtain t s' where
    t: "suffix t s" "(s', snd m) \<in> set (rmatch (Cat (Lit w) r) t Map.empty)"
    by blast
  from t(2) obtain s1 where "t = w @ s1"
    unfolding in_rmatch_Cat in_rmatch_Lit by blast
  with t(1) have "set w \<subseteq> set s"
    by (auto simp: suffix_def)
  with assms show False by blast
qed

lemma rmatch_Grp_Plus_all:
  assumes "d \<noteq> []" "\<forall>x\<in>set d. in_class c x"
  shows "\<exists>rest. rmatch (Grp k (Plus c)) d g = ([], g(k \<mapsto> d)) # rest"
proof -
  from assms(2) have t: "takeWhile (in_class c) d = d" by simp
  from assms(1) have "1 \<le> length d" by (cases d) auto
  then have "[1 ..< Suc (length d)] = [1 ..< length d] @ [length d]" by simp
  then have "rev [1 ..< Suc (length d)] = length d # rev [1 ..< length d]" by simp
  then show ?thesis by (simp add: t)
qed

lemma long_query:
  "process_query (''summarize ticket '' @ long_id) s = Inl ValueError"
proof -
  define w where "w = ''summarize ticket ''"
  define qq where "qq = w @ long_id"
  have set_q: "set qq = set w \<union> {CHR ''1''}"
    unfolding qq_def by (simp only: set_append long_id_facts)
  have "lower w = w" unfolding w_def by code_simp
  then have lo: "lower qq = qq" by (simp add: qq_def lower_def long_id_facts)
  have "\<not> is_space CHR ''s''" "\<not> is_space CHR ''1''" by code_simp+
  then have "qq \<noteq> []" "\<not> is_space (hd qq)" "\<not> is_space (last qq)"
    by (simp_all add: qq_def w_def long_id_facts)
  then have st: "strip qq = qq" by (rule strip_no_space)
  have no: "\<not> str_in k qq" if "is_status_keyword k" for k
  proof
    assume "str_in k qq"
    then have "set k \<subseteq> set qq" by (rule str_in_set)
    with that show False
      unfolding set_q is_status_keyword_def w_def by auto
  qed
  then have tr: "\<not> status_trigger qq"
    using status_trigger_keyword by blast
  have "\<not> set ''assign '' \<subseteq> set qq" unfolding set_q w_def by simp
  then have as: "re_search assign_re qq = None"
    unfolding assign_re_def by (rule re_search_Lit_None)
  have "\<not> set ''who '' \<subseteq> set qq" unfolding set_q w_def by simp
  then have wh: "re_search who_re qq = None"
    unfolding who_re_def by (rule re_search_Lit_None)
  from rmatch_Grp_Plus_all[OF long_id_facts(1) long_id_digits, of 1 Map.empty]
  obtain rest where g: "rmatch (Grp 1 (Plus Digit)) long_id Map.empty =
      ([], [1 \<mapsto> long_id]) # rest"
    by blast
  have "starts_with w qq" "drop (length w) qq = long_id"
    unfolding qq_def starts_with_append by simp_all
  with g have "rmatch summary_re qq Map.empty = ([], [1 \<mapsto> long_id]) # rest"
    unfolding summary_re_def w_def[symmetric] by simp
  with \<open>qq \<noteq> []\<close> have su: "re_search summary_re qq = Some (qq, [1 \<mapsto> long_id])"
    using re_search_hit[of qq summary_re "[]" "[1 \<mapsto> long_id]" rest] by simp
  from tr as wh su have "classify qq = Summary"
    by (simp add: classify_def Let_def lo st)
  with su have "captured_id qq = Some long_id"
    by (simp add: captured_id_def Let_def lo st group_def)
  then have "\<exists>d. captured_id qq = Some d \<and> max_str_digits < length d"
    by (simp add: max_str_digits_def long_id_facts)
  with process_query_outcome[of qq s] have "process_query qq s = Inl ValueError"
    by simp
  then show ?thesis unfolding qq_def w_def .
qed

text \<open>
  The claim as it was stated fails: on the query below \<^verbatim>\<open>int\<close> raises ValueError in the
  summary branch, and \<open>process_query\<close> returns no reply.
\<close>

theorem long_id_counterexample:
  "process_query (''summarize ticket '' @ replicate 4301 CHR ''1'') state_1 = Inl ValueError"
  using long_query[of state_1] unfolding long_id_def .

subsection \<open>The status listing\<close>

lemma listing_starts_with_T:
  "xs \<noteq> [] \<Longrightarrow> \<exists>rest. join sep (map listing_line xs) = CHR ''T'' # rest"
proof (cases xs)
  case Nil
  moreover assume "xs \<noteq> []"
  ultimately show ?thesis by simp
next
  case (Cons x ys)
  then show ?thesis by (cases ys) (simp_all add: listing_line_def)
qed

lemma reply_not_specify:
  assumes "reply_of c s r s'"
  shows "r \<noteq> msg_specify_status"
proof (cases c)
  case StatusListing
  with assms obtain st where r: "r = status_listing_reply (tickets s) st"
    by (auto simp: reply_of_def)
  show ?thesis
  proof (cases "list_tickets_by_status (tickets s) st = []")
    case True
    with r show ?thesis
      by (simp add: status_listing_reply_def msg_no_tickets_def msg_specify_status_def)
  next
    case False
    from listing_starts_with_T[OF False] obtain rest where
      "join [CHR 0x0A] (map listing_line (list_tickets_by_status (tickets s) st)) = CHR ''T'' # rest"
      by blast
    with r False show ?thesis
      by (simp add: status_listing_reply_def msg_specify_status_def)
  qed
next
  case Reassignment
  with assms show ?thesis
    by (auto simp: reply_of_def msg_not_found_def msg_already_def msg_now_def
        msg_specify_status_def)
next
  case Ownership
  with assms show ?thesis
    by (auto simp: reply_of_def msg_not_found_def msg_assigned_def msg_specify_status_def)
next
  case Summary
  with assms show ?thesis
    by (auto simp: reply_of_def msg_not_found_def msg_summary_def msg_specify_status_def)
next
  case Fallback
  with assms show ?thesis
    by (auto simp: reply_of_def msg_fallback_def msg_specify_status_def)
qed

text \<open>
  C9. Whenever the containment check of the status rule passes, the search for
  \<^verbatim>\<open>open|closed|pending\<close> in the same text succeeds, with a keyword as the text matched;
  so the branch that asks to specify a valid status is never taken, and no query in no
  state gets that reply.
\<close>

theorem status_reextraction_succeeds:
  "(status_trigger query \<longrightarrow>
      (\<exists>m. re_search status_re query = Some m \<and> is_status_keyword (group0 m))) \<and>
   (\<forall>s'. process_query q s \<noteq> Inr (msg_specify_status, s'))"
proof (intro conjI impI allI)
  assume "status_trigger query"
  from status_trigger_keyword[OF this] have "re_search status_re query \<noteq> None"
    by (simp only: status_search_None not_not)
  then obtain m where m: "re_search status_re query = Some m" by blast
  from status_search_Some[OF m] have "is_status_keyword (group0 m)" by blast
  with m show "\<exists>m. re_search status_re query = Some m \<and> is_status_keyword (group0 m)"
    by blast
next
  fix s'
  show "process_query q s \<noteq> Inr (msg_specify_status, s')"
  proof
    assume "process_query q s = Inr (msg_specify_status, s')"
    from process_query_Inr_reply[OF this] reply_not_specify show False by blast
  qed
qed

theorem status_reextraction_succeeds_witness:
  "status_trigger ''reopened tickets'' \<and>
   (\<exists>m. re_search status_re ''reopened tickets'' = Some m \<and> is_status_keyword (group0 m)) \<and>
   process_query ''reopened tickets'' state_1 \<noteq> Inr (msg_specify_status, state_1)"
proof -
  have t: "status_trigger ''reopened tickets''" by code_simp
  from status_reextraction_succeeds[of "''reopened tickets''" "''reopened tickets''" state_1] t
  show ?thesis by blast
qed

lemma str_in_dropWhile:
  assumes "w \<noteq> []" "\<not> P (hd w)"
  shows "str_in w (dropWhile P s) = str_in w s"
proof (induction s)
  case Nil
  then show ?case by simp
next
  case (Cons c cs)
  show ?case
  proof (cases "P c")
    case True
    from assms obtain a w' where w: "w = a # w'" by (cases w) auto
    with assms(2) True have "\<not> starts_with w (c # cs)" by auto
    with True Cons.IH show ?thesis by simp
  next
    case False
    then show ?thesis by simp
  qed
qed

lemma str_in_rev: "str_in (rev w) (rev s) = str_in w s"
  by (simp add: str_in_sublist)

text \<open>Stripping the text neither removes nor adds an occurrence of a word without spaces.\<close>

lemma str_in_strip:
  assumes "w \<noteq> []" "\<not> is_space (hd w)" "\<not> is_space (last w)"
  shows "str_in w (strip s) = str_in w s"
proof -
  from assms have r: "rev w \<noteq> []" "\<not> is_space (hd (rev w))"
    by (simp_all add: hd_rev)
  have "str_in w (strip s) = str_in (rev w) (dropWhile is_space (rev (lstrip s)))"
    using str_in_rev[of "rev w" "dropWhile is_space (rev (lstrip s))"]
    by (simp add: strip_def rstrip_def)
  also have "\<dots> = str_in (rev w) (rev (lstrip s))"
    using r by (rule str_in_dropWhile[of "rev w" is_space])
  also have "\<dots> = str_in w (lstrip s)"
    by (rule str_in_rev)
  also have "\<dots> = str_in w s"
    unfolding lstrip_def using assms(1,2) by (rule str_in_dropWhile[of w is_space])
  finally show ?thesis .
qed

lemma keyword_no_space:
  "is_status_keyword k \<Longrightarrow> k \<noteq> [] \<and> \<not> is_space (hd k) \<and> \<not> is_space (last k)"
  by (auto simp: is_status_keyword_def is_space_def)

lemma tickets_no_space:
  "''tickets'' \<noteq> [] \<and> \<not> is_space (hd ''tickets'') \<and> \<not> is_space (last ''tickets'')"
  by (simp add: is_space_def)

lemma status_trigger_strip:
  "status_trigger (strip x) \<longleftrightarrow>
     str_in ''tickets'' x \<and> (\<exists>k. is_status_keyword k \<and> str_in k x)"
proof -
  have t: "str_in ''tickets'' (strip x) = str_in ''tickets'' x"
    using tickets_no_space by (intro str_in_strip) blast+
  have k: "str_in k (strip x) = str_in k x" if "is_status_keyword k" for k
    using keyword_no_space[OF that] by (intro str_in_strip) blast+
  have "status_trigger (strip x) \<longleftrightarrow>
        str_in ''tickets'' (strip x) \<and> (\<exists>k. is_status_keyword k \<and> str_in k (strip x))"
    unfolding status_trigger_def is_status_keyword_def by blast
  with t k show ?thesis by auto
qed

text \<open>
  C10. The trigger of the status listing tests substrings, not words. Whenever the
  lower-cased query contains \<^verbatim>\<open>tickets\<close> and contains one of the three keywords
  anywhere, also inside a longer word, the query is a status listing, and the status
  listed is the keyword whose occurrence in the normalised query comes first.
\<close>

theorem status_listing_by_substring:
  assumes "str_in ''tickets'' (lower q)"
      and "is_status_keyword k" and "str_in k (lower q)"
  shows "classify q = StatusListing \<and>
         (\<exists>pre kw post.
            strip (lower q) = pre @ kw @ post \<and> is_status_keyword kw \<and>
            (\<forall>k' pre' post'. is_status_keyword k' \<longrightarrow> strip (lower q) = pre' @ k' @ post' \<longrightarrow>
               length pre \<le> length pre') \<and>
            process_query q s = Inr (status_listing_reply (tickets s) kw, s))"
proof -
  from assms have t: "status_trigger (strip (lower q))"
    unfolding status_trigger_strip by blast
  then have c: "classify q = StatusListing"
    by (simp add: classify_def Let_def)
  from process_query_status[OF t, of s] obtain m where
    m: "re_search status_re (strip (lower q)) = Some m"
       "process_query q s = Inr (status_listing_reply (tickets s) (group0 m), s)"
    by blast
  from status_search_Some[OF m(1)] m(2) c show ?thesis by blast
qed

theorem status_listing_by_substring_witness:
  "str_in ''open'' (lower ''Which tickets were REOPENED?'') \<and>
   classify ''Which tickets were REOPENED?'' = StatusListing \<and>
   (\<exists>kw. is_status_keyword kw \<and>
      process_query ''Which tickets were REOPENED?'' state_1 =
        Inr (status_listing_reply (tickets state_1) kw, state_1))"
proof -
  have a: "str_in ''tickets'' (lower ''Which tickets were REOPENED?'')" by code_simp
  have b: "is_status_keyword ''open''" by code_simp
  have c: "str_in ''open'' (lower ''Which tickets were REOPENED?'')" by code_simp
  from status_listing_by_substring[OF a b c, of state_1] c show ?thesis by blast
qed

subsection \<open>Reassignment\<close>




subsection \<open>The order of the rules\<close>

lemma triggers_in_order:
  "subseq (triggers q) [StatusListing, Reassignment, Ownership, Summary]"
  by (simp add: triggers_def Let_def)

lemma triggers_rule_answer:
  "c \<in> set (triggers q) \<longleftrightarrow> c \<noteq> Fallback \<and> rule_answer c (strip (lower q)) s \<noteq> None"
  by (cases c) (auto simp: triggers_def Let_def)

text \<open>
  C8, as the program has it. The triggers of the rules are not mutually exclusive:
  several can hold for one query, and each of these rules would answer if it were tried
  alone. The rules are tried in the order status listing, reassignment, ownership,
  summary; the outcome of \<open>process_query\<close> is the answer of the first rule whose trigger
  holds, whatever the later rules would answer, and the fallback when no trigger holds.
\<close>

theorem first_trigger_wins:
  "subseq (triggers q) [StatusListing, Reassignment, Ownership, Summary] \<and>
   (\<forall>c. c \<in> set (triggers q) \<longleftrightarrow>
      c \<noteq> Fallback \<and> rule_answer c (strip (lower q)) s \<noteq> None) \<and>
   Some (process_query q s) =
     rule_answer (case triggers q of [] \<Rightarrow> Fallback | c # cs \<Rightarrow> c) (strip (lower q)) s"
  using triggers_in_order[of q] triggers_rule_answer[of _ q s] process_query_rules[of q s]
  by blast

theorem first_trigger_wins_witness:
  "triggers ''who is assigned to ticket 3, summarize ticket 1'' = [Ownership, Summary] \<and>
   process_query ''who is assigned to ticket 3, summarize ticket 1'' state_1 =
     Inr (''Ticket 3 is assigned to Carol.'', state_1)"
proof -
  have t: "triggers ''who is assigned to ticket 3, summarize ticket 1'' = [Ownership, Summary]"
    by code_simp
  have r: "rule_answer Ownership
             (strip (lower ''who is assigned to ticket 3, summarize ticket 1'')) state_1 =
           Some (Inr (''Ticket 3 is assigned to Carol.'', state_1))"
    by code_simp
  from first_trigger_wins[of "''who is assigned to ticket 3, summarize ticket 1''" state_1]
  have "Some (process_query ''who is assigned to ticket 3, summarize ticket 1'' state_1) =
        rule_answer (case [Ownership, Summary] of [] \<Rightarrow> Fallback | c # cs \<Rightarrow> c)
          (strip (lower ''who is assigned to ticket 3, summarize ticket 1'')) state_1"
    unfolding t by blast
  then have "Some (process_query ''who is assigned to ticket 3, summarize ticket 1'' state_1) =
        Some (Inr (''Ticket 3 is assigned to Carol.'', state_1))"
    unfolding list.case r .
  then have "process_query ''who is assigned to ticket 3, summarize ticket 1'' state_1 =
        Inr (''Ticket 3 is assigned to Carol.'', state_1)"
    by (simp only: option.inject)
  with t show ?thesis by (simp only: simp_thms)
qed

text \<open>
  The claim as it was stated fails: the query below triggers the status listing and
  the summary, and the listing answers, so the summary is masked.
\<close>

theorem triggers_overlap_counterexample:
  "triggers ''summarize ticket 1 of the open tickets'' = [StatusListing, Summary] \<and>
   \<not> length (triggers ''summarize ticket 1 of the open tickets'') \<le> 1 \<and>
   process_query ''summarize ticket 1 of the open tickets'' state_1 =
     Inr (status_listing_reply (tickets state_1) ''open'', state_1)"
  by code_simp

subsection \<open>The interactive loop\<close>

lemma replies_error:
  "snd (snd (replies ls s)) = None \<or> snd (snd (replies ls s)) = Some ValueError"
proof (induction ls arbitrary: s)
  case Nil
  then show ?case by simp
next
  case (Cons l ls)
  show ?case
  proof (cases "process_query l s")
    case (Inl e)
    with process_query_Inl[OF Inl] show ?thesis by simp
  next
    case (Inr x)
    obtain r s' where "x = (r, s')" by (cases x)
    with Inr Cons.IH[of s'] show ?thesis by (simp add: case_prod_beta)
  qed
qed

lemma replies_length:
  "length (fst (replies ls s)) = length ls \<longleftrightarrow> snd (snd (replies ls s)) = None"
proof (induction ls arbitrary: s)
  case Nil
  then show ?case by simp
next
  case (Cons l ls)
  show ?case
  proof (cases "process_query l s")
    case (Inl e)
    then show ?thesis by simp
  next
    case (Inr x)
    obtain r s' where "x = (r, s')" by (cases x)
    with Inr Cons.IH[of s'] show ?thesis by (simp add: case_prod_beta)
  qed
qed

lemma agent_loop_eq:
  "agent_loop ls s =
     (case replies (takeWhile (\<lambda>l. \<not> is_sentinel l) ls) s of
        (rs, s', Some e) \<Rightarrow> (map agent_says rs, s', Some e)
      | (rs, s', None) \<Rightarrow>
          if takeWhile (\<lambda>l. \<not> is_sentinel l) ls = ls
          then (map agent_says rs, s', Some EOFError)
          else (map agent_says rs @ [msg_goodbye], s', None))"
proof (induction ls arbitrary: s)
  case Nil
  then show ?case by simp
next
  case (Cons l ls)
  show ?case
  proof (cases "is_sentinel l")
    case True
    then have "lower l \<in> set [''exit'', ''quit'']" unfolding is_sentinel_def .
    with True show ?thesis by simp
  next
    case False
    then have n: "lower l \<notin> set [''exit'', ''quit'']" unfolding is_sentinel_def .
    show ?thesis
    proof (cases "process_query l s")
      case (Inl e)
      with n False show ?thesis by simp
    next
      case (Inr x)
      obtain r s' where x: "x = (r, s')" by (cases x)
      obtain rs s'' eo where
        p: "replies (takeWhile (\<lambda>l. \<not> is_sentinel l) ls) s' = (rs, s'', eo)"
        by (cases "replies (takeWhile (\<lambda>l. \<not> is_sentinel l) ls) s'") auto
      from n Inr x have "agent_loop (l # ls) s =
          (agent_says r # fst (agent_loop ls s'), fst (snd (agent_loop ls s')),
           snd (snd (agent_loop ls s')))"
        by (simp add: case_prod_beta)
      also note Cons.IH[of s']
      finally show ?thesis
        using False Inr x p by (cases eo) simp_all
    qed
  qed
qed

text \<open>
  C7, as the program has it. The loop tests the line as it was read, lower-cased and
  not trimmed, against \<^verbatim>\<open>exit\<close> and \<^verbatim>\<open>quit\<close>. Every line before the first such line is
  passed to the router and its reply is printed. At that line the loop prints the
  farewell and ends. It ends without the farewell when the router raises, which is the
  ValueError of \<^verbatim>\<open>int\<close> and nothing else, or when the input ends and \<^verbatim>\<open>input\<close> raises
  EOFError.
\<close>

theorem agent_loop_sentinel:
  "(is_sentinel l \<longleftrightarrow> lower l = ''exit'' \<or> lower l = ''quit'') \<and>
   agent_loop ls s =
     (case replies (takeWhile (\<lambda>l. \<not> is_sentinel l) ls) s of
        (rs, s', Some e) \<Rightarrow> (map agent_says rs, s', Some e)
      | (rs, s', None) \<Rightarrow>
          if takeWhile (\<lambda>l. \<not> is_sentinel l) ls = ls
          then (map agent_says rs, s', Some EOFError)
          else (map agent_says rs @ [msg_goodbye], s', None)) \<and>
   (snd (snd (replies ls s)) = None \<or> snd (snd (replies ls s)) = Some ValueError) \<and>
   (length (fst (replies ls s)) = length ls \<longleftrightarrow> snd (snd (replies ls s)) = None)"
  using agent_loop_eq[of ls s] replies_error[of ls s] replies_length[of ls s]
  by (simp add: is_sentinel_def)

theorem agent_loop_sentinel_witness:
  "agent_loop [''hello'', ''Quit'', ''summarize ticket 1''] state_1 =
     ([agent_says msg_fallback, msg_goodbye], state_1, None)"
proof -
  have t: "takeWhile (\<lambda>l. \<not> is_sentinel l) [''hello'', ''Quit'', ''summarize ticket 1''] =
           [''hello'']"
    by code_simp
  have r: "replies [''hello''] state_1 = ([msg_fallback], state_1, None)"
    by code_simp
  from agent_loop_sentinel[of "''Quit''" "[''hello'', ''Quit'', ''summarize ticket 1'']" state_1]
  have "agent_loop [''hello'', ''Quit'', ''summarize ticket 1''] state_1 =
     (case replies [''hello''] state_1 of
        (rs, s', Some e) \<Rightarrow> (map agent_says rs, s', Some e)
      | (rs, s', None) \<Rightarrow>
          if [''hello''] = [''hello'', ''Quit'', ''summarize ticket 1'']
          then (map agent_says rs, s', Some EOFError)
          else (map agent_says rs @ [msg_goodbye], s', None))"
    unfolding t by blast
  then show ?thesis unfolding r by simp
qed

text \<open>
  The claim as it was stated fails: a sentinel with a space before it is a sentinel
  after trimming, but the loop passes it to the router and goes on.
\<close>

theorem sentinel_not_trimmed_counterexample:
  "is_sentinel_trimmed '' exit'' \<and> \<not> is_sentinel '' exit'' \<and>
   agent_loop ['' exit''] state_1 = ([agent_says msg_fallback], state_1, Some EOFError)"
  by code_simp

end
